theory Spec2Isabelle
  imports Main "HOL-Library.Char_ord" "HOL-Library.List_Lexorder" "HOL-Library.AList"
    "HOL-Library.Sublist" "HOL-Library.Multiset"
begin

section \<open>Python values used by \<^verbatim>\<open>taf/developer_tool.py\<close>\<close>

text \<open>
  Exceptions are values. The first group are the Python and library exceptions the
  module can raise; \<open>MonotonicViolation\<close> and \<open>AlreadyExists\<close> are error kinds of
  the specification only (no statement of the module raises or names them).
\<close>

datatype error =
    KeystoreError
  | Abort
  | AttributeError
  | UnboundLocalError
  | IndexError
  | KeyError
  | TypeError
  | FileNotFoundError
  | FileExistsError
  | IsADirectoryError
  | TokenError
  | MonotonicViolation
  | AlreadyExists

text \<open>
  JSON documents as \<^verbatim>\<open>json.dumps\<close> receives them. A Python \<^verbatim>\<open>dict\<close> keeps its
  items in insertion order, so it is an association list; assigning to a key that is
  present keeps the key's place, a new key goes to the end (\<open>AList.update\<close>).
  Strings are lists of code points below 256; floats do not occur.
\<close>

datatype json =
    JNull
  | JBool bool
  | JInt int
  | JStr string
  | JList "json list"
  | JDict "(string \<times> json) list"

definition dict_set :: "string \<Rightarrow> 'v \<Rightarrow> (string \<times> 'v) list \<Rightarrow> (string \<times> 'v) list" where
  "dict_set k v d = AList.update k v d"

subsection \<open>\<^verbatim>\<open>json.dumps(obj, indent=4)\<close>\<close>

definition hex_digit :: "nat \<Rightarrow> char" where
  "hex_digit n = ''0123456789abcdef'' ! (n mod 16)"

text \<open>
  \<^verbatim>\<open>py_encode_basestring_ascii\<close>: the quote and the backslash are escaped with a
  backslash, the five named control characters by their letter, and every other
  character outside \<^verbatim>\<open>' '..'~'\<close> as \<^verbatim>\<open>\u00XX\<close>.
\<close>

definition py_escape :: "char \<Rightarrow> string" where
  "py_escape c =
    (let n = (of_char c :: nat) in
     if n = 0x22 then [CHR 0x5C, CHR 0x22]
     else if n = 0x5C then [CHR 0x5C, CHR 0x5C]
     else if n = 0x0A then [CHR 0x5C, CHR ''n'']
     else if n = 0x0D then [CHR 0x5C, CHR ''r'']
     else if n = 0x09 then [CHR 0x5C, CHR ''t'']
     else if n = 0x08 then [CHR 0x5C, CHR ''b'']
     else if n = 0x0C then [CHR 0x5C, CHR ''f'']
     else if n < 0x20 \<or> 0x7E < n
       then [CHR 0x5C, CHR ''u'', CHR ''0'', CHR ''0'', hex_digit (n div 16), hex_digit n]
     else [c])"

definition encode_basestring_ascii :: "string \<Rightarrow> string" where
  "encode_basestring_ascii s = [CHR 0x22] @ concat (map py_escape s) @ [CHR 0x22]"

fun digits_nat :: "nat \<Rightarrow> string" where
  "digits_nat n =
    (if n < 10 then [''0123456789'' ! n]
     else digits_nat (n div 10) @ [''0123456789'' ! (n mod 10)])"

declare digits_nat.simps [simp del]

definition int_repr :: "int \<Rightarrow> string" where
  "int_repr i = (if i < 0 then ''-'' @ digits_nat (nat (- i)) else digits_nat (nat i))"

fun intercalate :: "'a list \<Rightarrow> 'a list list \<Rightarrow> 'a list" where
  "intercalate sep [] = []"
| "intercalate sep [x] = x"
| "intercalate sep (x # y # ys) = x @ sep @ intercalate sep (y # ys)"

definition newline_indent :: "nat \<Rightarrow> nat \<Rightarrow> string" where
  "newline_indent w l = CHR 0x0A # replicate (w * l) CHR '' ''"

text \<open>
  The encoder of \<^verbatim>\<open>json.encoder\<close> for an integer \<^verbatim>\<open>indent\<close> of \<open>w\<close> spaces at
  nesting level \<open>l\<close>: the item separator is \<^verbatim>\<open>","\<close> followed by the new line and
  its indentation, the key separator is \<^verbatim>\<open>": "\<close>, an empty container is written
  without a line break, and nothing follows the closing bracket.
\<close>

fun iterencode :: "nat \<Rightarrow> nat \<Rightarrow> json \<Rightarrow> string" where
  "iterencode w l JNull = ''null''"
| "iterencode w l (JBool b) = (if b then ''true'' else ''false'')"
| "iterencode w l (JInt i) = int_repr i"
| "iterencode w l (JStr s) = encode_basestring_ascii s"
| "iterencode w l (JList xs) =
    (if xs = [] then ''[]''
     else ''['' @ newline_indent w (Suc l)
       @ intercalate ('','' @ newline_indent w (Suc l)) (map (iterencode w (Suc l)) xs)
       @ newline_indent w l @ '']'')"
| "iterencode w l (JDict kvs) =
    (if kvs = [] then ''{}''
     else ''{'' @ newline_indent w (Suc l)
       @ intercalate ('','' @ newline_indent w (Suc l))
           (map (\<lambda>(k, v). encode_basestring_ascii k @ '': '' @ iterencode w (Suc l) v) kvs)
       @ newline_indent w l @ ''}'')"

definition json_dumps :: "nat \<Rightarrow> json \<Rightarrow> string" where
  "json_dumps indent obj = iterencode indent 0 obj"

section \<open>Paths and the file system\<close>

text \<open>
  A resolved \<^verbatim>\<open>pathlib.Path\<close> is the list of its components below the root.
  \<open>p / s\<close> splits \<open>s\<close> at the slashes, drops empty and \<^verbatim>\<open>.\<close> components, and starts
  again from the root when \<open>s\<close> is absolute.
\<close>

type_synonym path = "string list"

fun split_slash :: "string \<Rightarrow> string list" where
  "split_slash [] = [[]]"
| "split_slash (c # cs) =
    (if c = CHR ''/'' then [] # split_slash cs
     else (case split_slash cs of [] \<Rightarrow> [[c]] | x # xs \<Rightarrow> (c # x) # xs))"

definition components :: "string \<Rightarrow> path" where
  "components s = filter (\<lambda>c. c \<noteq> [] \<and> c \<noteq> ''.'') (split_slash s)"

definition path_div :: "path \<Rightarrow> string \<Rightarrow> path" where
  "path_div p s = (if s \<noteq> [] \<and> hd s = CHR ''/'' then components s else p @ components s)"

definition path_name :: "path \<Rightarrow> string" where
  "path_name p = (if p = [] then [] else last p)"

definition path_parent :: "path \<Rightarrow> path" where
  "path_parent p = butlast p"

definition as_posix :: "path \<Rightarrow> string" where
  "as_posix p = (if p = [] then ''/'' else concat (map (\<lambda>c. CHR ''/'' # c) p))"

text \<open>
  What the git provider reports for a working copy (\<^verbatim>\<open>taf.git.GitRepository\<close>, which
  is outside the module): the commit of HEAD, the current branch and the remote URL.
\<close>

record git_repository =
  head_commit_sha :: string
  get_current_branch :: string
  get_remote_url :: "string option"

text \<open>
  The part of the file system the module reads and writes: which paths are
  directories, which directories are git working copies, the text of each file, and
  the entry names of a directory in the order the operating system lists them
  (\<^verbatim>\<open>Path.glob("*")\<close>), and the directories below a path with their file names
  in the order \<^verbatim>\<open>os.walk\<close> visits them.
\<close>

record filesystem =
  is_dir :: "path \<Rightarrow> bool"
  git_repo_at :: "path \<Rightarrow> git_repository option"
  files :: "path \<Rightarrow> string option"
  glob_star :: "path \<Rightarrow> string list"
  os_walk :: "path \<Rightarrow> (path \<times> string list) list"

definition write_text :: "filesystem \<Rightarrow> path \<Rightarrow> string \<Rightarrow> error + filesystem" where
  "write_text fs p s =
    (if is_dir fs p then Inl IsADirectoryError
     else if \<not> is_dir fs (path_parent p) then Inl FileNotFoundError
     else Inr (fs\<lparr>files := (files fs)(p \<mapsto> s)\<rparr>))"

definition mkdir_parents :: "filesystem \<Rightarrow> path \<Rightarrow> error + filesystem" where
  "mkdir_parents fs p =
    (if \<exists>q \<in> set (prefixes p). files fs q \<noteq> None then Inl FileExistsError
     else Inr (fs\<lparr>is_dir := (\<lambda>q. is_dir fs q \<or> prefix q p)\<rparr>))"

definition TARGETS_DIRECTORY_NAME :: string where
  "TARGETS_DIRECTORY_NAME = ''targets''"

section \<open>Target descriptors\<close>

text \<open>\<^verbatim>\<open>_update_target_repos(repo_path, targets_dir, target_repo_path, add_branch)\<close>\<close>

definition target_repo_data :: "git_repository \<Rightarrow> bool \<Rightarrow> (string \<times> json) list" where
  "target_repo_data target_repo add_branch =
    (let data = [(''commit'', JStr (head_commit_sha target_repo))] in
     if add_branch then dict_set ''branch'' (JStr (get_current_branch target_repo)) data
     else data)"

definition update_target_repos' ::
  "filesystem \<Rightarrow> path \<Rightarrow> path \<Rightarrow> path \<Rightarrow> bool \<Rightarrow> error + filesystem" where
  "update_target_repos' fs repo_path targets_dir target_repo_path add_branch =
    (if \<not> is_dir fs target_repo_path \<or> target_repo_path = repo_path then Inr fs
     else case git_repo_at fs target_repo_path of
       None \<Rightarrow> Inr fs
     | Some target_repo \<Rightarrow>
         write_text fs (path_div targets_dir (path_name target_repo_path))
           (json_dumps 4 (JDict (target_repo_data target_repo add_branch))))"

text \<open>
  The descriptor as the specification writes it: the JSON object with the commit, and
  the branch after it when \<open>add_branch\<close> holds, one member a line, four spaces deep.
\<close>

definition descriptor_text :: "string \<Rightarrow> string \<Rightarrow> bool \<Rightarrow> string" where
  "descriptor_text C B add_branch =
     ''{'' @ [CHR 0x0A] @ ''    '' @ encode_basestring_ascii ''commit'' @ '': ''
       @ encode_basestring_ascii C
     @ (if add_branch
        then '','' @ [CHR 0x0A] @ ''    '' @ encode_basestring_ascii ''branch'' @ '': ''
          @ encode_basestring_ascii B
        else [])
     @ [CHR 0x0A] @ ''}''"

text \<open>\<^verbatim>\<open>_get_namespace_and_root(repo_path, namespace, root_dir)\<close>\<close>

definition get_namespace_and_root' ::
  "path \<Rightarrow> string option \<Rightarrow> path option \<Rightarrow> string \<times> path" where
  "get_namespace_and_root' repo_path namespace root_dir =
    ((case namespace of None \<Rightarrow> path_name (path_parent repo_path) | Some n \<Rightarrow> n),
     (case root_dir of None \<Rightarrow> path_parent (path_parent repo_path) | Some r \<Rightarrow> r))"

subsection \<open>\<^verbatim>\<open>update_target_repos_from_repositories_json\<close>\<close>

text \<open>
  \<^verbatim>\<open>repo_name.rsplit("/", 1)\<close>: the name split at its last slash, or the name alone.
\<close>

definition rsplit1 :: "string \<Rightarrow> string list" where
  "rsplit1 s =
    (if CHR ''/'' \<in> set s
     then [rev (tl (dropWhile (\<lambda>c. c \<noteq> CHR ''/'') (rev s))),
           rev (takeWhile (\<lambda>c. c \<noteq> CHR ''/'') (rev s))]
     else [s])"

text \<open>
  The loop over the repository names. The local variable \<^verbatim>\<open>targets_dir\<close> is bound
  only by the branch for names with a slash, and keeps its value from one iteration to
  the next; \<open>None\<close> is the unbound variable, whose use raises
  \<^verbatim>\<open>UnboundLocalError\<close>.
\<close>

fun update_from_repositories_loop ::
  "path \<Rightarrow> path \<Rightarrow> path \<Rightarrow> bool \<Rightarrow> path option \<Rightarrow> string list \<Rightarrow> filesystem
    \<Rightarrow> error + filesystem" where
  "update_from_repositories_loop repo_path root_dir auth_repo_targets_dir add_branch
      targets_dir [] fs = Inr fs"
| "update_from_repositories_loop repo_path root_dir auth_repo_targets_dir add_branch
      targets_dir (repo_name # rest) fs =
    (let target_repo_path = path_div root_dir repo_name;
         namespace_and_name = rsplit1 repo_name;
         targets_dir1 =
           (if length namespace_and_name > 1
            then Some (path_div auth_repo_targets_dir (hd namespace_and_name))
            else targets_dir)
     in case targets_dir1 of
          None \<Rightarrow> Inl UnboundLocalError
        | Some td \<Rightarrow>
            (case mkdir_parents fs td of
               Inl e \<Rightarrow> Inl e
             | Inr fs1 \<Rightarrow>
                 (case update_target_repos' fs1 repo_path td target_repo_path add_branch of
                    Inl e \<Rightarrow> Inl e
                  | Inr fs2 \<Rightarrow>
                      update_from_repositories_loop repo_path root_dir auth_repo_targets_dir
                        add_branch targets_dir1 rest fs2)))"

text \<open>
  The operation takes the parsed content of \<^verbatim>\<open>targets/repositories.json\<close>
  (\<^verbatim>\<open>json.loads\<close> of the file); iterating over the value of \<^verbatim>\<open>"repositories"\<close>
  yields its keys in order.
\<close>

definition update_target_repos_from_repositories_json ::
  "filesystem \<Rightarrow> json \<Rightarrow> path \<Rightarrow> path option \<Rightarrow> string option \<Rightarrow> bool
    \<Rightarrow> error + filesystem" where
  "update_target_repos_from_repositories_json fs repositories_json repo_path root_dir
      namespace add_branch =
    (let auth_repo_targets_dir = path_div repo_path TARGETS_DIRECTORY_NAME;
         (namespace1, root_dir1) = get_namespace_and_root' repo_path namespace root_dir
     in case repositories_json of
          JDict members \<Rightarrow>
            (case map_of members ''repositories'' of
               Some (JDict repositories) \<Rightarrow>
                 update_from_repositories_loop repo_path root_dir1 auth_repo_targets_dir
                   add_branch None (map fst repositories) fs
             | _ \<Rightarrow> Inl TypeError)
        | _ \<Rightarrow> Inl AttributeError)"

section \<open>The repositories manifest\<close>

text \<open>
  \<^verbatim>\<open>os.path.relpath(path, start)\<close> on resolved paths: one \<^verbatim>\<open>..\<close> for each
  component of \<open>start\<close> below the common prefix, then the rest of \<open>path\<close>.
\<close>

definition relpath :: "path \<Rightarrow> path \<Rightarrow> string" where
  "relpath p start =
    (let i = length (longest_common_prefix start p);
         rel_list = replicate (length start - i) ''..'' @ drop i p
     in if rel_list = [] then ''.'' else intercalate ''/'' rel_list)"

definition namespaced_name :: "string \<Rightarrow> string \<Rightarrow> string" where
  "namespaced_name namespace target_repo_name =
    (if namespace = [] then target_repo_name else namespace @ ''/'' @ target_repo_name)"

definition repository_url :: "git_repository \<Rightarrow> path \<Rightarrow> path option \<Rightarrow> string" where
  "repository_url target_repo target_repo_dir targets_relative_dir =
    (case get_remote_url target_repo of
       Some url \<Rightarrow> url
     | None \<Rightarrow>
         (case targets_relative_dir of
            Some rel \<Rightarrow> relpath target_repo_dir rel
          | None \<Rightarrow> as_posix target_repo_dir))"

text \<open>The body of the loop over \<^verbatim>\<open>targets_directory.glob("*")\<close>.\<close>

fun repositories_loop ::
  "filesystem \<Rightarrow> path \<Rightarrow> path \<Rightarrow> string \<Rightarrow> path option \<Rightarrow> (string \<times> json) list
    \<Rightarrow> string list \<Rightarrow> (string \<times> json) list \<Rightarrow> (string \<times> json) list" where
  "repositories_loop fs repo_path targets_directory namespace targets_relative_dir
      custom_data [] repositories = repositories"
| "repositories_loop fs repo_path targets_directory namespace targets_relative_dir
      custom_data (entry # rest) repositories =
    (let target_repo_dir = targets_directory @ [entry] in
     if \<not> is_dir fs target_repo_dir \<or> target_repo_dir = repo_path
     then repositories_loop fs repo_path targets_directory namespace targets_relative_dir
            custom_data rest repositories
     else case git_repo_at fs target_repo_dir of
       None \<Rightarrow>
         repositories_loop fs repo_path targets_directory namespace targets_relative_dir
           custom_data rest repositories
     | Some target_repo \<Rightarrow>
         (let target_repo_namespaced_name =
                namespaced_name namespace (path_name target_repo_dir);
              url = repository_url target_repo target_repo_dir targets_relative_dir;
              item = [(''urls'', JList [JStr url])];
              item1 =
                (case map_of custom_data target_repo_namespaced_name of
                   Some custom \<Rightarrow> dict_set ''custom'' custom item
                 | None \<Rightarrow> item)
          in repositories_loop fs repo_path targets_directory namespace
               targets_relative_dir custom_data rest
               (dict_set target_repo_namespaced_name (JDict item1) repositories)))"

definition repositories_json_text :: "(string \<times> json) list \<Rightarrow> string" where
  "repositories_json_text repositories =
     json_dumps 4 (JDict [(''repositories'', JDict repositories)])"

definition generate_repositories_json ::
  "filesystem \<Rightarrow> path \<Rightarrow> path option \<Rightarrow> string option \<Rightarrow> path option
    \<Rightarrow> (string \<times> json) list \<Rightarrow> error + filesystem" where
  "generate_repositories_json fs repo_path root_dir namespace targets_relative_dir
      custom_data =
    (let auth_repo_targets_dir = path_div repo_path TARGETS_DIRECTORY_NAME;
         (namespace1, root_dir1) = get_namespace_and_root' repo_path namespace root_dir;
         targets_directory = path_div root_dir1 namespace1;
         repositories =
           repositories_loop fs repo_path targets_directory namespace1 targets_relative_dir
             custom_data (glob_star fs targets_directory) []
     in write_text fs (path_div auth_repo_targets_dir ''repositories.json'')
          (repositories_json_text repositories))"

section \<open>Prompts, keystore and tokens\<close>

text \<open>
  A key is named by its key id. The functions below stand for the collaborators the
  module calls (\<^verbatim>\<open>click.confirm\<close>, \<^verbatim>\<open>input\<close>, \<^verbatim>\<open>taf.keystore\<close>,
  \<^verbatim>\<open>taf.yubikey\<close>, the key generators of TUF): what the user and the devices will
  answer is part of the state, every call consumes its answer and is appended to the
  trace, and the state survives an exception. A prompt with no answer left is the
  user's abort.
\<close>

type_synonym key = string

datatype question =
    Load_more_keys string
  | Sign_using_yubikey string
  | Reuse_yubikey
  | Wipe_yubikey
  | Generate_new_keys string
  | Write_keys_to_keystore

datatype message =
    Already_exists
  | Creation_failed
  | Created_repository
  | Cannot_update_from_keystore string
  | Cannot_update_using_yubikeys string
  | Updated_expiration string

datatype event =
    Confirm question bool
  | Input_line string
  | Read_private_key string
  | Read_public_key string
  | Key_cmd_prompt string
  | Yubikey_prompt string string
  | Setup_new_yubikey string
  | Export_yk_certificate key
  | Generate_and_write_rsa_keypair string
  | Generate_rsa_key
  | Register_roles_keys string
  | Create_new_repository
  | Touch_test_auth_repo
  | Writeall
  | Git_init
  | Git_commit string
  | Print message

text \<open>
  The description of a role's keys (\<^verbatim>\<open>roles_key_infos[role]\<close>); a field that the
  dictionary does not have is \<open>None\<close>. \<^verbatim>\<open>roles_key_infos\<close> is a dictionary, in the
  order of its items.
\<close>

record key_info =
  ki_number :: "nat option"
  ki_threshold :: "nat option"
  ki_yubikey :: "bool option"
  ki_scheme :: "string option"
  ki_length :: "nat option"

type_synonym roles_key_infos = "(string \<times> key_info) list"

record world =
  confirm_answers :: "bool list"
  input_lines :: "string list"
  keystore_private :: "string \<Rightarrow> (error + key) option"
  keystore_public :: "string \<Rightarrow> (error + key) option"
  typed_keys :: "(error + key) list"
  inserted_tokens :: "(error + key \<times> string) list"
  rsa_keys :: "nat \<Rightarrow> key"
  rsa_generated :: nat
  entered_roles_infos :: "error + (string \<times> key_info) list"
  new_yubikey_key :: "string \<Rightarrow> error + key"
  key_pin :: "string \<Rightarrow> string"
  trace :: "event list"

definition log :: "event \<Rightarrow> world \<Rightarrow> world" where
  "log ev w = w\<lparr>trace := trace w @ [ev]\<rparr>"

definition confirm :: "question \<Rightarrow> world \<Rightarrow> (error + bool) \<times> world" where
  "confirm q w =
    (case confirm_answers w of
       [] \<Rightarrow> (Inl Abort, w)
     | a # rest \<Rightarrow> (Inr a, log (Confirm q a) (w\<lparr>confirm_answers := rest\<rparr>)))"

definition input_line :: "world \<Rightarrow> (error + string) \<times> world" where
  "input_line w =
    (case input_lines w of
       [] \<Rightarrow> (Inl Abort, w)
     | l # rest \<Rightarrow> (Inr l, log (Input_line l) (w\<lparr>input_lines := rest\<rparr>)))"

definition read_private_key_from_keystore :: "string \<Rightarrow> world \<Rightarrow> (error + key) \<times> world" where
  "read_private_key_from_keystore key_name w =
    ((case keystore_private w key_name of None \<Rightarrow> Inl KeystoreError | Some r \<Rightarrow> r),
     log (Read_private_key key_name) w)"

definition read_public_key_from_keystore :: "string \<Rightarrow> world \<Rightarrow> (error + key) \<times> world" where
  "read_public_key_from_keystore key_name w =
    ((case keystore_public w key_name of None \<Rightarrow> Inl KeystoreError | Some r \<Rightarrow> r),
     log (Read_public_key key_name) w)"

definition key_cmd_prompt :: "string \<Rightarrow> world \<Rightarrow> (error + key) \<times> world" where
  "key_cmd_prompt key_name w =
    (case typed_keys w of
       [] \<Rightarrow> (Inl Abort, w)
     | r # rest \<Rightarrow> (r, log (Key_cmd_prompt key_name) (w\<lparr>typed_keys := rest\<rparr>)))"

text \<open>
  \<^verbatim>\<open>loaded_yubikeys\<close> maps a token's serial number to the roles it was loaded for;
  the callers of the module only ask whether a role is among them.
\<close>

type_synonym loaded_yubikeys = "(string \<times> string list) list"

definition add_loaded :: "string \<Rightarrow> string \<Rightarrow> loaded_yubikeys \<Rightarrow> loaded_yubikeys" where
  "add_loaded serial role loaded =
    dict_set serial
      (case map_of loaded serial of None \<Rightarrow> [role] | Some roles \<Rightarrow> roles @ [role]) loaded"

text \<open>
  Modelled from the spec: \<^verbatim>\<open>taf.yubikey.yubikey_prompt\<close> is not among the sources.
  It asks for the token, returns its public key and serial number, and "pushes the
  acquired PublicKey+serial into loaded_tokens so later operations can reuse the
  unlock" when the caller passes that dictionary.
\<close>

definition yubikey_prompt ::
  "string \<Rightarrow> string \<Rightarrow> loaded_yubikeys option \<Rightarrow> world
    \<Rightarrow> (error + (key \<times> string) \<times> loaded_yubikeys option) \<times> world" where
  "yubikey_prompt key_name role loaded w =
    (case inserted_tokens w of
       [] \<Rightarrow> (Inl Abort, w)
     | t # rest \<Rightarrow>
         (let w1 = log (Yubikey_prompt key_name role) (w\<lparr>inserted_tokens := rest\<rparr>) in
          case t of
            Inl e \<Rightarrow> (Inl e, w1)
          | Inr (pub_key, serial) \<Rightarrow>
              (Inr ((pub_key, serial), map_option (add_loaded serial role) loaded), w1)))"

section \<open>Loading the signing keys of a role\<close>

text \<open>
  The repository object of \<^verbatim>\<open>taf.repository_tool\<close> as the module uses it: the
  threshold and the keys of a role, the expiration of a role, the target entries (path,
  length and digest), and the methods called on it, in order, with their key or pin
  argument.
\<close>

datatype repo_call =
    Update_targets_from_keystore key
  | Update_targets string
  | Update_snapshot_and_timestmap key key
  | Update_timestamp key
  | Update_snapshot key
  | Repo_writeall

record taf_repository =
  role_threshold :: "string \<Rightarrow> nat"
  role_keys :: "string \<Rightarrow> key list"
  expiration :: "string \<Rightarrow> int"
  targets_dict :: "(string \<times> nat \<times> string) list"
  calls :: "repo_call list"

definition call :: "repo_call \<Rightarrow> taf_repository \<Rightarrow> taf_repository" where
  "call c repo = repo\<lparr>calls := calls repo @ [c]\<rparr>"

text \<open>
  The candidate names: the role itself, then the role with the counters
  \<^verbatim>\<open>1 .. signing_keys_num\<close>.
\<close>

definition key_names :: "string \<Rightarrow> nat \<Rightarrow> string list" where
  "key_names role signing_keys_num =
     role # map (\<lambda>counter. role @ digits_nat counter) [1..<signing_keys_num + 1]"

text \<open>The first loop of \<^verbatim>\<open>_load_signing_keys\<close>, over the names found in the keystore.\<close>

fun load_from_keystore ::
  "string list \<Rightarrow> key list \<Rightarrow> nat \<Rightarrow> world \<Rightarrow> (error + key list \<times> nat) \<times> world" where
  "load_from_keystore [] keys num_of_signatures w = (Inr (keys, num_of_signatures), w)"
| "load_from_keystore (key_name # rest) keys num_of_signatures w =
    (if keystore_private w key_name = None
     then load_from_keystore rest keys num_of_signatures w
     else case read_private_key_from_keystore key_name w of
       (Inl e, w1) \<Rightarrow> (Inl e, w1)
     | (Inr key, w1) \<Rightarrow> load_from_keystore rest (keys @ [key]) (Suc num_of_signatures) w1)"

definition role_is_yubikey :: "roles_key_infos option \<Rightarrow> string \<Rightarrow> bool option" where
  "role_is_yubikey role_key_infos role =
    (case role_key_infos of
       None \<Rightarrow> None
     | Some infos \<Rightarrow> (case map_of infos role of None \<Rightarrow> None | Some info \<Rightarrow> ki_yubikey info))"

text \<open>
  One pass through the body of the \<^verbatim>\<open>while\<close> loop, up to the increment of
  \<^verbatim>\<open>num_of_signatures\<close>. A key read from a token is not added to \<^verbatim>\<open>keys\<close>.
\<close>

definition load_keys_step ::
  "string \<Rightarrow> nat \<Rightarrow> nat \<Rightarrow> roles_key_infos option \<Rightarrow> bool \<Rightarrow> nat \<Rightarrow> key list
    \<Rightarrow> loaded_yubikeys option \<Rightarrow> world
    \<Rightarrow> (error + bool \<times> key list \<times> loaded_yubikeys option) \<times> world" where
  "load_keys_step role threshold signing_keys_num role_key_infos all_loaded
      num_of_signatures keys loaded w =
    (let key_name =
           (if signing_keys_num = 1 then role else role @ digits_nat (num_of_signatures + 1))
     in case (if threshold \<le> num_of_signatures
              then (case confirm (Load_more_keys role) w of
                      (Inl e, w1) \<Rightarrow> (Inl e, w1)
                    | (Inr a, w1) \<Rightarrow> (Inr (\<not> a), w1))
              else (Inr all_loaded, w)) of
          (Inl e, w1) \<Rightarrow> (Inl e, w1)
        | (Inr all_loaded1, w1) \<Rightarrow>
            if all_loaded1 then (Inr (all_loaded1, keys, loaded), w1)
            else
              (case (case role_is_yubikey role_key_infos role of
                       None \<Rightarrow> confirm (Sign_using_yubikey role) w1
                     | Some b \<Rightarrow> (Inr b, w1)) of
                 (Inl e, w2) \<Rightarrow> (Inl e, w2)
               | (Inr is_yubikey, w2) \<Rightarrow>
                   if is_yubikey
                   then (case yubikey_prompt key_name role loaded w2 of
                           (Inl e, w3) \<Rightarrow> (Inl e, w3)
                         | (Inr (_, loaded1), w3) \<Rightarrow> (Inr (all_loaded1, keys, loaded1), w3))
                   else (case key_cmd_prompt key_name w2 of
                           (Inl e, w3) \<Rightarrow> (Inl e, w3)
                         | (Inr key, w3) \<Rightarrow> (Inr (all_loaded1, keys @ [key], loaded), w3))))"

function load_keys_loop ::
  "string \<Rightarrow> nat \<Rightarrow> nat \<Rightarrow> roles_key_infos option \<Rightarrow> bool \<Rightarrow> nat \<Rightarrow> key list
    \<Rightarrow> loaded_yubikeys option \<Rightarrow> world
    \<Rightarrow> (error + key list \<times> loaded_yubikeys option) \<times> world" where
  "load_keys_loop role threshold signing_keys_num role_key_infos all_loaded
      num_of_signatures keys loaded w =
    (if \<not> all_loaded \<and> num_of_signatures < signing_keys_num
     then (case load_keys_step role threshold signing_keys_num role_key_infos all_loaded
                  num_of_signatures keys loaded w of
             (Inl e, w1) \<Rightarrow> (Inl e, w1)
           | (Inr (all_loaded1, keys1, loaded1), w1) \<Rightarrow>
               load_keys_loop role threshold signing_keys_num role_key_infos all_loaded1
                 (Suc num_of_signatures) keys1 loaded1 w1)
     else (Inr (keys, loaded), w))"
  by pat_completeness auto
termination
  by (relation "measure (\<lambda>(role, threshold, signing_keys_num, infos, all_loaded, num, rest).
        signing_keys_num - num)") auto

declare load_keys_loop.simps [simp del]

text \<open>
  \<^verbatim>\<open>_load_signing_keys(taf_repo, role, keystore, role_key_infos, loaded_yubikeys, scheme)\<close>.
  The scheme only travels to the collaborators and is left out.
\<close>

definition load_signing_keys' ::
  "taf_repository \<Rightarrow> string \<Rightarrow> path option \<Rightarrow> roles_key_infos option
    \<Rightarrow> loaded_yubikeys option \<Rightarrow> world
    \<Rightarrow> (error + key list \<times> loaded_yubikeys option) \<times> world" where
  "load_signing_keys' taf_repo role keystore role_key_infos loaded w =
    (let threshold = role_threshold taf_repo role;
         signing_keys_num = length (role_keys taf_repo role)
     in case (case keystore of
                None \<Rightarrow> (Inr ([], 0), w)
              | Some ks \<Rightarrow> load_from_keystore (key_names role signing_keys_num) [] 0 w) of
          (Inl e, w1) \<Rightarrow> (Inl e, w1)
        | (Inr (keys, num_of_signatures), w1) \<Rightarrow>
            load_keys_loop role threshold signing_keys_num role_key_infos False
              num_of_signatures keys loaded w1)"

section \<open>Writing the targets metadata\<close>

definition first_targets_yubikey :: "loaded_yubikeys option \<Rightarrow> string option" where
  "first_targets_yubikey loaded =
    (case loaded of
       None \<Rightarrow> None
     | Some l \<Rightarrow> map_option fst (find (\<lambda>(serial_num, roles). ''targets'' \<in> set roles) l))"

text \<open>
  \<^verbatim>\<open>_write_targets_metadata(taf_repo, keystore, roles_key_infos, scheme)\<close>. The
  update methods of the repository object are outside the module; each call is recorded
  with the key or pin it is given.
\<close>

definition write_targets_metadata' ::
  "taf_repository \<Rightarrow> path option \<Rightarrow> roles_key_infos option \<Rightarrow> world
    \<Rightarrow> (error + taf_repository) \<times> world" where
  "write_targets_metadata' taf_repo keystore roles_key_infos w =
    (case load_signing_keys' taf_repo ''targets'' keystore roles_key_infos (Some []) w of
       (Inl e, w1) \<Rightarrow> (Inl e, w1)
     | (Inr (targets_keys, loaded_yubikeys), w1) \<Rightarrow>
         (let taf_repo1 =
                (if targets_keys \<noteq> []
                 then call (Update_targets_from_keystore (hd targets_keys)) taf_repo
                 else (case first_targets_yubikey loaded_yubikeys of
                         None \<Rightarrow> taf_repo
                       | Some serial_num \<Rightarrow>
                           call (Update_targets (key_pin w1 serial_num)) taf_repo))
          in case load_signing_keys' taf_repo1 ''snapshot'' keystore roles_key_infos None w1 of
               (Inl e, w2) \<Rightarrow> (Inl e, w2)
             | (Inr (snapshot_keys, _), w2) \<Rightarrow>
                 (case load_signing_keys' taf_repo1 ''timestamp'' keystore roles_key_infos
                         None w2 of
                    (Inl e, w3) \<Rightarrow> (Inl e, w3)
                  | (Inr (timestamp_keys, _), w3) \<Rightarrow>
                      if snapshot_keys = [] \<or> timestamp_keys = [] then (Inl IndexError, w3)
                      else (Inr (call Repo_writeall
                                  (call (Update_snapshot_and_timestmap (hd snapshot_keys)
                                           (hd timestamp_keys)) taf_repo1)), w3))))"

text \<open>The keys of the keystore that an operation handed to the repository for a role.\<close>

fun call_keys :: "string \<Rightarrow> repo_call \<Rightarrow> key list" where
  "call_keys role (Update_targets_from_keystore k) = (if role = ''targets'' then [k] else [])"
| "call_keys role (Update_targets pin) = []"
| "call_keys role (Update_snapshot_and_timestmap sk tk) =
     (if role = ''snapshot'' then [sk] else if role = ''timestamp'' then [tk] else [])"
| "call_keys role (Update_timestamp k) = (if role = ''timestamp'' then [k] else [])"
| "call_keys role (Update_snapshot k) = (if role = ''snapshot'' then [k] else [])"
| "call_keys role Repo_writeall = []"

definition keys_passed :: "string \<Rightarrow> repo_call list \<Rightarrow> key list" where
  "keys_passed role cs = concat (map (call_keys role) cs)"

section \<open>Registering the target files\<close>

definition walked_files :: "filesystem \<Rightarrow> path \<Rightarrow> path list" where
  "walked_files fs targets_path =
     concat (map (\<lambda>(root_dir, filenames). map (\<lambda>filename. root_dir @ [filename]) filenames)
                 (os_walk fs targets_path))"

text \<open>
  Modelled from the spec: the name under which \<^verbatim>\<open>taf.repository_tool\<close> (not among
  the sources) records a target file is its "path (repository-relative, POSIX
  slashes)", taken relative to the targets directory.
\<close>

definition target_name :: "path \<Rightarrow> path \<Rightarrow> string" where
  "target_name targets_path p = intercalate ''/'' (drop (length targets_path) p)"

text \<open>
  Modelled from the spec: \<^verbatim>\<open>Repository.add_existing_target\<close> of
  \<^verbatim>\<open>taf.repository_tool\<close> is not among the sources. "For every file, compute
  length + hashes + record in the targets role". The digest is the parameter \<open>H\<close>.
\<close>

definition add_existing_target ::
  "(string \<Rightarrow> string) \<Rightarrow> filesystem \<Rightarrow> path \<Rightarrow> path \<Rightarrow> taf_repository
    \<Rightarrow> error + taf_repository" where
  "add_existing_target H fs targets_path p taf_repo =
    (case files fs p of
       None \<Rightarrow> Inl FileNotFoundError
     | Some content \<Rightarrow>
         Inr (taf_repo\<lparr>targets_dict :=
                dict_set (target_name targets_path p) (length content, H content)
                  (targets_dict taf_repo)\<rparr>))"

fun add_existing_targets ::
  "(string \<Rightarrow> string) \<Rightarrow> filesystem \<Rightarrow> path \<Rightarrow> path list \<Rightarrow> taf_repository
    \<Rightarrow> error + taf_repository" where
  "add_existing_targets H fs targets_path [] taf_repo = Inr taf_repo"
| "add_existing_targets H fs targets_path (p # ps) taf_repo =
    (case add_existing_target H fs targets_path p taf_repo of
       Inl e \<Rightarrow> Inl e
     | Inr taf_repo1 \<Rightarrow> add_existing_targets H fs targets_path ps taf_repo1)"

text \<open>
  Modelled from the spec: the emission of \<^verbatim>\<open>targets.json\<close> by
  \<^verbatim>\<open>Repository.writeall\<close> is not among the sources. "Sort entries by path (POSIX)
  before emission".
\<close>

definition emitted_entries :: "taf_repository \<Rightarrow> (string \<times> nat \<times> string) list" where
  "emitted_entries taf_repo = sort_key fst (targets_dict taf_repo)"

text \<open>
  Modelled from the spec: the text of \<^verbatim>\<open>targets.json\<close>, whose format is outside the
  sources and the specification, is taken to be the JSON text of the emitted entries, each
  with its hashes and its length.
\<close>

definition targets_json_text :: "taf_repository \<Rightarrow> string" where
  "targets_json_text taf_repo =
     json_dumps 4 (JDict [(''targets'',
       JDict (map (\<lambda>(p, len, digest).
                     (p, JDict [(''hashes'', JStr digest), (''length'', JInt (int len))]))
                  (emitted_entries taf_repo)))])"

text \<open>
  \<^verbatim>\<open>register_target_files(repo_path, keystore, roles_key_infos, commit, scheme)\<close>;
  \<open>taf_repo\<close> is the repository object loaded from \<open>repo_path\<close>.
\<close>

definition register_target_files ::
  "(string \<Rightarrow> string) \<Rightarrow> filesystem \<Rightarrow> path \<Rightarrow> taf_repository \<Rightarrow> path option
    \<Rightarrow> roles_key_infos option \<Rightarrow> bool \<Rightarrow> world \<Rightarrow> (error + taf_repository) \<times> world" where
  "register_target_files H fs repo_path taf_repo keystore roles_key_infos commit w =
    (let targets_path = path_div repo_path TARGETS_DIRECTORY_NAME in
     case add_existing_targets H fs targets_path (walked_files fs targets_path) taf_repo of
       Inl e \<Rightarrow> (Inl e, w)
     | Inr taf_repo1 \<Rightarrow>
         (case write_targets_metadata' taf_repo1 keystore roles_key_infos w of
            (Inl e, w1) \<Rightarrow> (Inl e, w1)
          | (Inr taf_repo2, w1) \<Rightarrow>
              if commit
              then (case input_line w1 of
                      (Inl e, w2) \<Rightarrow> (Inl e, w2)
                    | (Inr commit_message, w2) \<Rightarrow>
                        (Inr taf_repo2, log (Git_commit commit_message) w2))
              else (Inr taf_repo2, w1)))"

section \<open>Refreshing an expiration date\<close>

text \<open>
  A \<^verbatim>\<open>datetime\<close> is its number of microseconds; \<^verbatim>\<open>timedelta(days=interval)\<close>
  is \<open>interval\<close> days.
\<close>

definition timedelta_days :: "int \<Rightarrow> int" where
  "timedelta_days interval = interval * 86400000000"

datatype update_method =
    update_timestamp
  | update_snapshot
  | update_targets_from_keystore
  | update_targets

definition update_methods :: "(string \<times> update_method) list" where
  "update_methods =
    [(''timestamp_keystore'', update_timestamp),
     (''snapshot_keystore'', update_snapshot),
     (''targets_keystore'', update_targets_from_keystore),
     (''targets_yubikey'', update_targets)]"

definition method_role :: "update_method \<Rightarrow> string" where
  "method_role m =
    (case m of
       update_timestamp \<Rightarrow> ''timestamp''
     | update_snapshot \<Rightarrow> ''snapshot''
     | update_targets_from_keystore \<Rightarrow> ''targets''
     | update_targets \<Rightarrow> ''targets'')"

definition method_call :: "update_method \<Rightarrow> string \<Rightarrow> repo_call" where
  "method_call m key_or_pin =
    (case m of
       update_timestamp \<Rightarrow> Update_timestamp key_or_pin
     | update_snapshot \<Rightarrow> Update_snapshot key_or_pin
     | update_targets_from_keystore \<Rightarrow> Update_targets_from_keystore key_or_pin
     | update_targets \<Rightarrow> Update_targets key_or_pin)"

text \<open>
  Modelled from the spec: the update methods \<^verbatim>\<open>update_timestamp\<close>,
  \<^verbatim>\<open>update_snapshot\<close>, \<^verbatim>\<open>update_targets_from_keystore\<close> and \<^verbatim>\<open>update_targets\<close>
  of \<^verbatim>\<open>taf.repository_tool.Repository\<close> are not among the sources. Called with a
  start date and an interval, a method "advances the named role's expiration to
  start_date + interval (days)"; "new_expiry > old_expiry always; otherwise it fails
  without writing", with \<open>MonotonicViolation\<close>.
\<close>

definition run_update_method ::
  "update_method \<Rightarrow> string \<Rightarrow> int \<Rightarrow> int \<Rightarrow> taf_repository \<Rightarrow> error + taf_repository" where
  "run_update_method m key_or_pin start_date interval taf_repo =
    (let new_expiry = start_date + timedelta_days interval in
     if new_expiry \<le> expiration taf_repo (method_role m) then Inl MonotonicViolation
     else Inr (call (method_call m key_or_pin)
                 (taf_repo\<lparr>expiration := (expiration taf_repo)(method_role m := new_expiry)\<rparr>)))"

text \<open>
  \<^verbatim>\<open>update_metadata_expiration_date(repo_path, role, interval, keystore, scheme,
  start_date, commit)\<close>; \<open>taf_repo\<close> is the repository object loaded from
  \<open>repo_path\<close>. The result is how the call ends, the repository object as the call
  leaves it, and the state of the prompts. A \<^verbatim>\<open>KeyError\<close> of the method table (or
  of the method) is caught and reported.
\<close>

definition try_update ::
  "string \<Rightarrow> string \<Rightarrow> message \<Rightarrow> int \<Rightarrow> int \<Rightarrow> taf_repository \<Rightarrow> world
    \<Rightarrow> (error + unit) \<times> taf_repository \<times> world" where
  "try_update method_name key_or_pin cannot start_date interval taf_repo w =
    (case map_of update_methods method_name of
       None \<Rightarrow> (Inr (), taf_repo, log (Print cannot) w)
     | Some m \<Rightarrow>
         (case run_update_method m key_or_pin start_date interval taf_repo of
            Inl e \<Rightarrow>
              if e = KeyError then (Inr (), taf_repo, log (Print cannot) w)
              else (Inl e, taf_repo, w)
          | Inr taf_repo1 \<Rightarrow> (Inr (), taf_repo1, w)))"

text \<open>
  The two branches after the keys are loaded: with a key of the keystore the method
  named \<^verbatim>\<open>{role}_keystore\<close> is called with the first key; with none, the first
  token loaded for \<^verbatim>\<open>"targets"\<close> gives its pin to the method named
  \<^verbatim>\<open>{role}_yubikey\<close>.
\<close>

definition update_with_loaded_keys ::
  "taf_repository \<Rightarrow> string \<Rightarrow> key list \<Rightarrow> loaded_yubikeys option \<Rightarrow> int \<Rightarrow> int \<Rightarrow> world
    \<Rightarrow> (error + unit) \<times> taf_repository \<times> world" where
  "update_with_loaded_keys taf_repo role keys loaded_yubikeys start_date interval w =
    (if keys \<noteq> []
     then try_update (role @ ''_keystore'') (hd keys)
            (Cannot_update_from_keystore role) start_date interval taf_repo w
     else (case first_targets_yubikey loaded_yubikeys of
             None \<Rightarrow> (Inr (), taf_repo, w)
           | Some serial_num \<Rightarrow>
               try_update (role @ ''_yubikey'') (key_pin w serial_num)
                 (Cannot_update_using_yubikeys role) start_date interval taf_repo w))"

definition update_metadata_expiration_date ::
  "taf_repository \<Rightarrow> string \<Rightarrow> int \<Rightarrow> path option \<Rightarrow> int \<Rightarrow> bool \<Rightarrow> world
    \<Rightarrow> (error + unit) \<times> taf_repository \<times> world" where
  "update_metadata_expiration_date taf_repo role interval keystore start_date commit w =
    (case load_signing_keys' taf_repo role keystore None (Some []) w of
       (Inl e, w1) \<Rightarrow> (Inl e, taf_repo, w1)
     | (Inr (keys, loaded_yubikeys), w1) \<Rightarrow>
         (case update_with_loaded_keys taf_repo role keys loaded_yubikeys start_date
                 interval w1 of
            (Inl e, taf_repo1, w2) \<Rightarrow> (Inl e, taf_repo1, w2)
          | (Inr _, taf_repo1, w2) \<Rightarrow>
              (let w3 = log (Print (Updated_expiration role)) w2 in
               if commit
               then (case input_line w3 of
                       (Inl e, w4) \<Rightarrow> (Inl e, taf_repo1, w4)
                     | (Inr commit_message, w4) \<Rightarrow>
                         (Inr (), taf_repo1, log (Git_commit commit_message) w4))
               else (Inr (), taf_repo1, w3))))"

section \<open>Creating a repository\<close>

text \<open>
  The repository object that \<^verbatim>\<open>create_new_repository\<close> of TUF returns has the four
  top-level role objects as attributes. A role object is mutated through a reference,
  so \<^verbatim>\<open>_role_obj\<close> returns which of the four attributes it is.
\<close>

datatype role_ref = Root_ref | Targets_ref | Snapshot_ref | Timestamp_ref

record role_object =
  threshold :: nat
  verification_keys :: "key list"
  signing_keys :: "key list"
  signature_providers :: "(key \<times> string) list"

record tuf_repository =
  role_objects :: "role_ref \<Rightarrow> role_object"

definition role_obj' :: "string \<Rightarrow> tuf_repository \<Rightarrow> role_ref option" where
  "role_obj' role repository =
    (if role = ''targets'' then Some Targets_ref
     else if role = ''snapshot'' then Some Snapshot_ref
     else if role = ''timestamp'' then Some Timestamp_ref
     else if role = ''root'' then Some Root_ref
     else None)"

definition update_role ::
  "role_ref \<Rightarrow> (role_object \<Rightarrow> role_object) \<Rightarrow> tuf_repository \<Rightarrow> tuf_repository" where
  "update_role r f repository =
     repository\<lparr>role_objects := (role_objects repository)(r := f (role_objects repository r))\<rparr>"

definition add_verification_key :: "key \<Rightarrow> role_object \<Rightarrow> role_object" where
  "add_verification_key k obj = obj\<lparr>verification_keys := verification_keys obj @ [k]\<rparr>"

definition load_signing_key :: "key \<Rightarrow> role_object \<Rightarrow> role_object" where
  "load_signing_key k obj = obj\<lparr>signing_keys := signing_keys obj @ [k]\<rparr>"

definition add_external_signature_provider :: "key \<Rightarrow> string \<Rightarrow> role_object \<Rightarrow> role_object" where
  "add_external_signature_provider k key_name obj =
     obj\<lparr>signature_providers := signature_providers obj @ [(k, key_name)]\<rparr>"

definition get_key_name' :: "string \<Rightarrow> nat \<Rightarrow> nat \<Rightarrow> string" where
  "get_key_name' role_name key_num num_of_keys =
    (if num_of_keys = 1 then role_name else role_name @ digits_nat (key_num + 1))"

definition generate_rsa_key :: "world \<Rightarrow> key \<times> world" where
  "generate_rsa_key w =
     (rsa_keys w (rsa_generated w), log Generate_rsa_key (w\<lparr>rsa_generated := Suc (rsa_generated w)\<rparr>))"

definition generate_and_write_rsa_keypair :: "string \<Rightarrow> world \<Rightarrow> world" where
  "generate_and_write_rsa_keypair key_name w =
    (let k = rsa_keys w (rsa_generated w) in
     log (Generate_and_write_rsa_keypair key_name)
       (w\<lparr>rsa_generated := Suc (rsa_generated w),
          keystore_private := (keystore_private w)(key_name \<mapsto> Inr k),
          keystore_public := (keystore_public w)(key_name \<mapsto> Inr k)\<rparr>))"

definition setup_new_yubikey :: "string \<Rightarrow> world \<Rightarrow> (error + key) \<times> world" where
  "setup_new_yubikey serial_num w = (new_yubikey_key w serial_num, log (Setup_new_yubikey serial_num) w)"

text \<open>
  \<^verbatim>\<open>_register_yubikey(yubikeys, role_obj, role_name, key_name, scheme, certs_dir)\<close>:
  the loop starts again when the user neither reuses the token nor lets it be wiped.
\<close>

function register_yubikey' ::
  "loaded_yubikeys \<Rightarrow> role_ref \<Rightarrow> string \<Rightarrow> string \<Rightarrow> tuf_repository \<Rightarrow> world
    \<Rightarrow> (error + loaded_yubikeys \<times> tuf_repository) \<times> world" where
  "register_yubikey' yubikeys role_obj role_name key_name repository w =
    (case confirm Reuse_yubikey w of
       (Inl e, w1) \<Rightarrow> (Inl e, w1)
     | (Inr use_existing, w1) \<Rightarrow>
         (case (if \<not> use_existing then confirm Wipe_yubikey w1 else (Inr True, w1)) of
            (Inl e, w2) \<Rightarrow> (Inl e, w2)
          | (Inr proceed, w2) \<Rightarrow>
              if \<not> proceed
              then register_yubikey' yubikeys role_obj role_name key_name repository w2
              else
                (case yubikey_prompt key_name role_name (Some yubikeys) w2 of
                   (Inl e, w3) \<Rightarrow> (Inl e, w3)
                 | (Inr ((key, serial_num), yubikeys1), w3) \<Rightarrow>
                     (case (if \<not> use_existing then setup_new_yubikey serial_num w3
                            else (Inr key, w3)) of
                        (Inl e, w4) \<Rightarrow> (Inl e, w4)
                      | (Inr key1, w4) \<Rightarrow>
                          (Inr ((case yubikeys1 of None \<Rightarrow> yubikeys | Some y \<Rightarrow> y),
                                update_role role_obj
                                  (\<lambda>obj. add_external_signature_provider key1 key_name
                                            (add_verification_key key1 obj))
                                  repository),
                           log (Export_yk_certificate key1) w4)))))"
  by pat_completeness auto
termination
  by (relation "measure (\<lambda>(yubikeys, role_obj, role_name, key_name, repository, w).
        length (confirm_answers w))")
     (auto simp: confirm_def log_def split: list.splits if_splits)

declare register_yubikey'.simps [simp del]

text \<open>
  \<^verbatim>\<open>_register_key\<close>. The first part is the \<^verbatim>\<open>try\<close> block with its handler: it
  yields the two keys read from the keystore, or \<open>None\<close> when new keys are to be
  generated, and raises the \<^verbatim>\<open>KeystoreError\<close> again when the user declines.
\<close>

definition keystore_error_handler ::
  "string \<Rightarrow> error \<Rightarrow> world \<Rightarrow> (error + (key \<times> key) option) \<times> world" where
  "keystore_error_handler key_name e w =
    (if e = KeystoreError
     then (case confirm (Generate_new_keys key_name) w of
             (Inl e1, w1) \<Rightarrow> (Inl e1, w1)
           | (Inr generate_new_keys, w1) \<Rightarrow>
               if \<not> generate_new_keys then (Inl e, w1) else (Inr None, w1))
     else (Inl e, w))"

definition load_keystore_pair ::
  "path option \<Rightarrow> string \<Rightarrow> world \<Rightarrow> (error + (key \<times> key) option) \<times> world" where
  "load_keystore_pair keystore key_name w =
    (case keystore of
       None \<Rightarrow> (Inr None, w)
     | Some ks \<Rightarrow>
         (case read_public_key_from_keystore key_name w of
            (Inl e, w1) \<Rightarrow> keystore_error_handler key_name e w1
          | (Inr public_key, w1) \<Rightarrow>
              (case read_private_key_from_keystore key_name w1 of
                 (Inl e, w2) \<Rightarrow> keystore_error_handler key_name e w2
               | (Inr private_key, w2) \<Rightarrow> (Inr (Some (public_key, private_key)), w2))))"

definition generate_new_pair ::
  "path option \<Rightarrow> string \<Rightarrow> world \<Rightarrow> (error + key \<times> key) \<times> world" where
  "generate_new_pair keystore key_name w =
    (case (case keystore of
             None \<Rightarrow> (Inr False, w)
           | Some ks \<Rightarrow> confirm Write_keys_to_keystore w) of
       (Inl e, w1) \<Rightarrow> (Inl e, w1)
     | (Inr write_keys, w1) \<Rightarrow>
         if write_keys
         then (let w2 = generate_and_write_rsa_keypair key_name w1 in
               case read_public_key_from_keystore key_name w2 of
                 (Inl e, w3) \<Rightarrow> (Inl e, w3)
               | (Inr public_key, w3) \<Rightarrow>
                   (case read_private_key_from_keystore key_name w3 of
                      (Inl e, w4) \<Rightarrow> (Inl e, w4)
                    | (Inr private_key, w4) \<Rightarrow> (Inr (public_key, private_key), w4)))
         else (case generate_rsa_key w1 of (key, w2) \<Rightarrow> (Inr (key, key), w2)))"

definition register_key' ::
  "path option \<Rightarrow> role_ref \<Rightarrow> string \<Rightarrow> string \<Rightarrow> tuf_repository \<Rightarrow> world
    \<Rightarrow> (error + tuf_repository) \<times> world" where
  "register_key' keystore role_obj role_name key_name repository w =
    (case load_keystore_pair keystore key_name w of
       (Inl e, w1) \<Rightarrow> (Inl e, w1)
     | (Inr loaded, w1) \<Rightarrow>
         (case (case loaded of
                  None \<Rightarrow> generate_new_pair keystore key_name w1
                | Some pair \<Rightarrow> (Inr pair, w1)) of
            (Inl e, w2) \<Rightarrow> (Inl e, w2)
          | (Inr (public_key, private_key), w2) \<Rightarrow>
              (Inr (update_role role_obj
                      (\<lambda>obj. load_signing_key private_key (add_verification_key public_key obj))
                      repository), w2)))"

text \<open>
  The local function \<^verbatim>\<open>_register_roles_keys(role_name, key_info, repository)\<close> of
  \<^verbatim>\<open>create_repository\<close>, with the dictionary \<^verbatim>\<open>yubikeys\<close> it closes over. Setting
  the threshold of the \<^verbatim>\<open>None\<close> that \<^verbatim>\<open>_role_obj\<close> returns for any other role name
  raises \<^verbatim>\<open>AttributeError\<close>.
\<close>

definition uses_yubikey :: "key_info \<Rightarrow> bool" where
  "uses_yubikey info = (ki_yubikey info = Some True)"

fun register_keys_loop ::
  "path option \<Rightarrow> bool \<Rightarrow> role_ref \<Rightarrow> string \<Rightarrow> nat \<Rightarrow> nat list
    \<Rightarrow> loaded_yubikeys \<times> tuf_repository \<Rightarrow> world
    \<Rightarrow> (error + loaded_yubikeys \<times> tuf_repository) \<times> world" where
  "register_keys_loop keystore is_yubikey role_obj role_name num_of_keys [] st w = (Inr st, w)"
| "register_keys_loop keystore is_yubikey role_obj role_name num_of_keys (key_num # rest)
      (yubikeys, repository) w =
    (let key_name = get_key_name' role_name key_num num_of_keys in
     case (if is_yubikey
           then register_yubikey' yubikeys role_obj role_name key_name repository w
           else (case register_key' keystore role_obj role_name key_name repository w of
                   (Inl e, w1) \<Rightarrow> (Inl e, w1)
                 | (Inr repository1, w1) \<Rightarrow> (Inr (yubikeys, repository1), w1))) of
       (Inl e, w1) \<Rightarrow> (Inl e, w1)
     | (Inr st1, w1) \<Rightarrow>
         register_keys_loop keystore is_yubikey role_obj role_name num_of_keys rest st1 w1)"

definition register_roles_keys' ::
  "path option \<Rightarrow> string \<Rightarrow> key_info \<Rightarrow> loaded_yubikeys \<times> tuf_repository \<Rightarrow> world
    \<Rightarrow> (error + loaded_yubikeys \<times> tuf_repository) \<times> world" where
  "register_roles_keys' keystore role_name info st w =
    (let num_of_keys = (case ki_number info of None \<Rightarrow> 1 | Some n \<Rightarrow> n);
         threshold1 = (case ki_threshold info of None \<Rightarrow> 1 | Some t \<Rightarrow> t);
         is_yubikey = uses_yubikey info;
         w0 = log (Register_roles_keys role_name) w
     in case role_obj' role_name (snd st) of
          None \<Rightarrow> (Inl AttributeError, w0)
        | Some role_obj \<Rightarrow>
            register_keys_loop keystore is_yubikey role_obj role_name num_of_keys
              [0..<num_of_keys]
              (fst st, update_role role_obj (\<lambda>obj. obj\<lparr>threshold := threshold1\<rparr>) (snd st))
              w0)"

text \<open>
  One of the two loops over \<^verbatim>\<open>roles_key_infos.items()\<close>: the first registers the
  roles that do not use YubiKeys, the second the roles that do.
\<close>

fun register_pass ::
  "bool \<Rightarrow> path option \<Rightarrow> roles_key_infos \<Rightarrow> loaded_yubikeys \<times> tuf_repository \<Rightarrow> world
    \<Rightarrow> (error + loaded_yubikeys \<times> tuf_repository) \<times> world" where
  "register_pass token_pass keystore [] st w = (Inr st, w)"
| "register_pass token_pass keystore ((role_name, info) # rest) st w =
    (if uses_yubikey info = token_pass
     then (case register_roles_keys' keystore role_name info st w of
             (Inl e, w1) \<Rightarrow> (Inl e, w1)
           | (Inr st1, w1) \<Rightarrow> register_pass token_pass keystore rest st1 w1)
     else register_pass token_pass keystore rest st w)"

definition new_repository :: tuf_repository where
  "new_repository =
    \<lparr>role_objects = (\<lambda>r. \<lparr>threshold = 1, verification_keys = [], signing_keys = [],
                          signature_providers = []\<rparr>)\<rparr>"

text \<open>
  \<^verbatim>\<open>create_repository(repo_path, keystore, roles_key_infos, commit, test)\<close>. When
  \<^verbatim>\<open>roles_key_infos\<close> is empty the roles are asked for (\<^verbatim>\<open>_enter_roles_infos\<close>);
  the state holds what that dialogue yields. A \<^verbatim>\<open>KeystoreError\<close> of the two passes is
  caught, reported, and the function returns.
\<close>

definition finish_creation :: "bool \<Rightarrow> bool \<Rightarrow> world \<Rightarrow> (error + unit) \<times> world" where
  "finish_creation commit test w =
    (let w1 = (if test then log Touch_test_auth_repo w else w);
         w2 = log (Print Created_repository) (log Writeall w1)
     in if commit
        then (case input_line (log Git_init w2) of
                (Inl e, w3) \<Rightarrow> (Inl e, w3)
              | (Inr commit_message, w3) \<Rightarrow> (Inr (), log (Git_commit commit_message) w3))
        else (Inr (), w2))"

definition create_repository ::
  "filesystem \<Rightarrow> path \<Rightarrow> path option \<Rightarrow> roles_key_infos \<Rightarrow> bool \<Rightarrow> bool \<Rightarrow> world
    \<Rightarrow> (error + unit) \<times> world" where
  "create_repository fs repo_path keystore roles_key_infos commit test w =
    (case (if roles_key_infos = [] then entered_roles_infos w else Inr roles_key_infos) of
       Inl e \<Rightarrow> (Inl e, w)
     | Inr infos \<Rightarrow>
         if is_dir fs repo_path \<and> git_repo_at fs repo_path \<noteq> None
         then (Inr (), log (Print Already_exists) w)
         else
           (case register_pass False keystore infos ([], new_repository)
                   (log Create_new_repository w) of
              (Inl e, w1) \<Rightarrow>
                if e = KeystoreError then (Inr (), log (Print Creation_failed) w1)
                else (Inl e, w1)
            | (Inr st1, w1) \<Rightarrow>
                (case register_pass True keystore infos st1 w1 of
                   (Inl e, w2) \<Rightarrow>
                     if e = KeystoreError then (Inr (), log (Print Creation_failed) w2)
                     else (Inl e, w2)
                 | (Inr st2, w2) \<Rightarrow> finish_creation commit test w2)))"

section \<open>Auxiliary notions for the statements\<close>

text \<open>
  The entries of a listing that \<^verbatim>\<open>generate_repositories_json\<close> keeps: directories
  that are git working copies and are not the authentication repository itself.
\<close>

definition listed_repositories :: "filesystem \<Rightarrow> path \<Rightarrow> path \<Rightarrow> string list \<Rightarrow> string list" where
  "listed_repositories fs repo_path targets_directory entries =
     filter (\<lambda>entry. is_dir fs (targets_directory @ [entry])
                \<and> targets_directory @ [entry] \<noteq> repo_path
                \<and> git_repo_at fs (targets_directory @ [entry]) \<noteq> None) entries"

definition written_file :: "error + filesystem \<Rightarrow> path \<Rightarrow> string option" where
  "written_file r p = (case r of Inl e \<Rightarrow> None | Inr fs \<Rightarrow> files fs p)"

definition quoted :: "string \<Rightarrow> string" where
  "quoted s = [CHR 0x22] @ s @ [CHR 0x22]"

definition text_lines :: "string list \<Rightarrow> string" where
  "text_lines ls = intercalate [CHR 0x0A] ls"

subsection \<open>A small library root used in the examples\<close>

text \<open>
  The authentication repository \<^verbatim>\<open>/r/ns/auth\<close> and two target repositories without a
  remote, which the operating system lists as \<^verbatim>\<open>repoB\<close>, \<^verbatim>\<open>auth\<close>, \<^verbatim>\<open>repoA\<close>.
\<close>

definition example_repo :: git_repository where
  "example_repo = \<lparr>head_commit_sha = ''4b825dc642cb6eb9a060e54bf8d69288fbee4904'',
      get_current_branch = ''master'', get_remote_url = None\<rparr>"

definition example_fs :: filesystem where
  "example_fs =
    \<lparr>is_dir = (\<lambda>p. p \<in> {[''r''], [''r'', ''ns''], [''r'', ''ns'', ''auth''],
                 [''r'', ''ns'', ''auth'', ''targets''], [''r'', ''ns'', ''repoB''],
                 [''r'', ''ns'', ''repoA'']}),
     git_repo_at = (\<lambda>p. if p \<in> {[''r'', ''ns'', ''auth''], [''r'', ''ns'', ''repoB''],
                 [''r'', ''ns'', ''repoA'']} then Some example_repo else None),
     files = (\<lambda>p. if p = [''r'', ''ns'', ''auth'', ''targets'', ''a''] then Some ''one''
                 else if p = [''r'', ''ns'', ''auth'', ''targets'', ''z'', ''a''] then Some ''two''
                 else if p = [''r'', ''ns'', ''auth'', ''targets'', ''z'', ''b''] then Some ''three''
                 else None),
     glob_star = (\<lambda>p. if p = [''r'', ''ns''] then [''repoB'', ''auth'', ''repoA''] else []),
     os_walk = (\<lambda>p. if p = [''r'', ''ns'', ''auth'', ''targets'']
                 then [([''r'', ''ns'', ''auth'', ''targets''], [''a'']),
                       ([''r'', ''ns'', ''auth'', ''targets'', ''z''], [''b'', ''a''])]
                 else [])\<rparr>"

definition example_auth :: path where
  "example_auth = [''r'', ''ns'', ''auth'']"

definition raised :: "error + 'a \<Rightarrow> error option" where
  "raised r = (case r of Inl e \<Rightarrow> Some e | Inr x \<Rightarrow> None)"

text \<open>How many times the token prompt was answered between two states.\<close>

definition tokens_prompted :: "world \<Rightarrow> world \<Rightarrow> nat" where
  "tokens_prompted w w' = length (inserted_tokens w) - length (inserted_tokens w')"

definition existing_key_files :: "world \<Rightarrow> string \<Rightarrow> nat \<Rightarrow> string list" where
  "existing_key_files w role signing_keys_num =
     filter (\<lambda>key_name. keystore_private w key_name \<noteq> None) (key_names role signing_keys_num)"

text \<open>The events after the first \<open>n\<close> of a trace.\<close>

definition events_since :: "world \<Rightarrow> world \<Rightarrow> event list" where
  "events_since w w' = drop (length (trace w)) (trace w')"

subsection \<open>A repository and a user used in the examples\<close>

text \<open>
  Root has three keys and threshold two, every other role one key; every expiration is
  day 1000. The keystore holds \<^verbatim>\<open>root1\<close>, \<^verbatim>\<open>root2\<close>, \<^verbatim>\<open>root3\<close>, \<^verbatim>\<open>snapshot\<close>
  and \<^verbatim>\<open>timestamp\<close>; one token with the targets key waits to be inserted; the user
  will answer no to every question.
\<close>

definition example_taf_repo :: taf_repository where
  "example_taf_repo =
    \<lparr>role_threshold = (\<lambda>role. if role = ''root'' then 2 else 1),
     role_keys = (\<lambda>role. if role = ''root'' then [''rootkey1'', ''rootkey2'', ''rootkey3'']
                    else [role @ ''key'']),
     expiration = (\<lambda>role. timedelta_days 1000),
     targets_dict = [],
     calls = []\<rparr>"

definition example_keystore :: "string \<Rightarrow> (error + key) option" where
  "example_keystore key_name =
    (if key_name \<in> {''root1'', ''root2'', ''root3'', ''snapshot'', ''timestamp''}
     then Some (Inr (key_name @ ''-key'')) else None)"

definition example_world :: world where
  "example_world =
    \<lparr>confirm_answers = [False, False, False, False],
     input_lines = [],
     keystore_private = example_keystore,
     keystore_public = example_keystore,
     typed_keys = [],
     inserted_tokens = [Inr (''targets-token-key'', ''serial-1'')],
     rsa_keys = (\<lambda>n. ''generated-'' @ digits_nat n),
     rsa_generated = 0,
     entered_roles_infos = Inl Abort,
     new_yubikey_key = (\<lambda>serial_num. Inr (''new-key-of-'' @ serial_num)),
     key_pin = (\<lambda>serial_num. ''123456''),
     trace = []\<rparr>"

definition example_keystore_path :: path where
  "example_keystore_path = [''r'', ''keystore'']"

definition yubikey_info :: key_info where
  "yubikey_info = \<lparr>ki_number = None, ki_threshold = None, ki_yubikey = Some True,
     ki_scheme = None, ki_length = None\<rparr>"

definition default_info :: key_info where
  "default_info = \<lparr>ki_number = None, ki_threshold = None, ki_yubikey = None,
     ki_scheme = None, ki_length = None\<rparr>"

text \<open>
  A second repository whose snapshot role has two keys and threshold two, and a
  keystore that holds both of them, the targets key and the timestamp key.
\<close>

definition example_taf_repo2 :: taf_repository where
  "example_taf_repo2 =
    \<lparr>role_threshold = (\<lambda>role. if role = ''snapshot'' then 2 else 1),
     role_keys = (\<lambda>role. if role = ''snapshot'' then [''snapshotkey1'', ''snapshotkey2'']
                    else [role @ ''key'']),
     expiration = (\<lambda>role. timedelta_days 1000),
     targets_dict = [],
     calls = []\<rparr>"

definition example_keystore2 :: "string \<Rightarrow> (error + key) option" where
  "example_keystore2 key_name =
    (if key_name \<in> {''targets'', ''snapshot1'', ''snapshot2'', ''timestamp''}
     then Some (Inr (key_name @ ''-key'')) else None)"

definition example_world2 :: world where
  "example_world2 =
     example_world\<lparr>keystore_private := example_keystore2, keystore_public := example_keystore2\<rparr>"

definition example_world2_after_targets :: world where
  "example_world2_after_targets =
     snd (load_signing_keys' example_taf_repo2 ''targets'' (Some example_keystore_path) None
            (Some []) example_world2)"

definition example_world2_after_snapshot :: world where
  "example_world2_after_snapshot =
     snd (load_signing_keys' example_taf_repo2 ''snapshot'' (Some example_keystore_path) None
            None example_world2_after_targets)"

text \<open>
  What a refresh does to the expiration of a role: it fails with \<open>MonotonicViolation\<close>
  and changes nothing, or it succeeds and the expiration is the proposed, later one.
\<close>

definition refreshed ::
  "taf_repository \<Rightarrow> string \<Rightarrow> int \<Rightarrow> int \<Rightarrow> (error + unit) \<times> taf_repository \<times> world \<Rightarrow> bool" where
  "refreshed taf_repo role start_date interval r =
    (if start_date + timedelta_days interval \<le> expiration taf_repo role
     then fst r = Inl MonotonicViolation \<and> fst (snd r) = taf_repo
     else fst r = Inr ()
        \<and> expiration (fst (snd r)) role = start_date + timedelta_days interval
        \<and> expiration taf_repo role < expiration (fst (snd r)) role)"

subsection \<open>Events of the registration of keys\<close>

text \<open>
  The answer "no" to "Could not load the key. Generate new keys?"; the events of
  registering a key of the keystore; the events of registering a key on a token; the
  roles whose registration was started, in order.
\<close>

fun is_declined :: "event \<Rightarrow> bool" where
  "is_declined (Confirm (Generate_new_keys key_name) answer) = (\<not> answer)"
| "is_declined ev = False"

fun key_event :: "event \<Rightarrow> bool" where
  "key_event (Confirm (Generate_new_keys key_name) answer) = True"
| "key_event (Confirm Write_keys_to_keystore answer) = True"
| "key_event (Read_private_key key_name) = True"
| "key_event (Read_public_key key_name) = True"
| "key_event (Generate_and_write_rsa_keypair key_name) = True"
| "key_event Generate_rsa_key = True"
| "key_event ev = False"

fun token_event :: "event \<Rightarrow> bool" where
  "token_event (Confirm Reuse_yubikey answer) = True"
| "token_event (Confirm Wipe_yubikey answer) = True"
| "token_event (Yubikey_prompt key_name role) = True"
| "token_event (Setup_new_yubikey serial_num) = True"
| "token_event (Export_yk_certificate k) = True"
| "token_event ev = False"

fun registered :: "event list \<Rightarrow> string list" where
  "registered [] = []"
| "registered (Register_roles_keys role_name # evs) = role_name # registered evs"
| "registered (ev # evs) = registered evs"

definition roles_of_pass :: "bool \<Rightarrow> roles_key_infos \<Rightarrow> string list" where
  "roles_of_pass token_pass infos =
     map fst (filter (\<lambda>(role_name, info). uses_yubikey info = token_pass) infos)"

text \<open>
  A run from the state \<open>w\<close> with the outcome \<open>m\<close> adds events of the kind \<open>P\<close> only,
  and ends with the \<^verbatim>\<open>KeystoreError\<close> if the user declined to generate new keys.
\<close>

definition runs :: "(event \<Rightarrow> bool) \<Rightarrow> world \<Rightarrow> (error + 'a) \<times> world \<Rightarrow> bool" where
  "runs P w m =
    (\<exists>evs. trace (snd m) = trace w @ evs \<and> list_all P evs
       \<and> (list_ex is_declined evs \<longrightarrow> fst m = Inl KeystoreError))"

definition canonical_roles :: "string set" where
  "canonical_roles = {''root'', ''targets'', ''snapshot'', ''timestamp''}"

fun is_registration :: "event \<Rightarrow> bool" where
  "is_registration (Register_roles_keys role_name) = True"
| "is_registration ev = False"

definition pass_event :: "bool \<Rightarrow> event \<Rightarrow> bool" where
  "pass_event token_pass ev = (if token_pass then token_event ev else key_event ev)"

text \<open>
  A run of one of the two passes over \<open>infos\<close>: its events are registrations and the
  events of its kind of key, it ends with the \<^verbatim>\<open>KeystoreError\<close> if the user declined,
  and the roles it started to register are the first roles of the pass, all of them
  if it returns.
\<close>

definition pass_runs :: "bool \<Rightarrow> roles_key_infos \<Rightarrow> world \<Rightarrow> (error + 'a) \<times> world \<Rightarrow> bool" where
  "pass_runs token_pass infos w m =
    (\<exists>evs. trace (snd m) = trace w @ evs
       \<and> list_all (\<lambda>ev. pass_event token_pass ev \<or> is_registration ev) evs
       \<and> (list_ex is_declined evs \<longrightarrow> fst m = Inl KeystoreError)
       \<and> prefix (registered evs) (roles_of_pass token_pass infos)
       \<and> ((\<exists>x. fst m = Inr x) \<longrightarrow> registered evs = roles_of_pass token_pass infos))"

text \<open>
  A description of two roles, root on YubiKeys and targets in the keystore, and one
  with a delegated targets role after the four top-level roles.
\<close>

definition example_roles :: roles_key_infos where
  "example_roles = [(''root'', yubikey_info), (''targets'', default_info)]"

definition example_roles_delegated :: roles_key_infos where
  "example_roles_delegated =
     [(''snapshot'', default_info), (''timestamp'', default_info), (''delegated'', default_info)]"

subsection \<open>Two traversals of the same targets directory\<close>

text \<open>
  The example file system with its three target files \<^verbatim>\<open>a\<close>, \<^verbatim>\<open>z/b\<close>, \<^verbatim>\<open>z/a\<close>,
  the same file system walked in another order, and the repository object after a first
  registration.
\<close>

definition example_fs_reordered :: filesystem where
  "example_fs_reordered =
     example_fs\<lparr>os_walk := (\<lambda>p. if p = [''r'', ''ns'', ''auth'', ''targets'']
                 then [([''r'', ''ns'', ''auth'', ''targets'', ''z''], [''a'', ''b'']),
                       ([''r'', ''ns'', ''auth'', ''targets''], [''a''])]
                 else [])\<rparr>"

definition registered_repo :: "(error + taf_repository) \<times> world \<Rightarrow> taf_repository" where
  "registered_repo m = (case fst m of Inl e \<Rightarrow> example_taf_repo2 | Inr taf_repo \<Rightarrow> taf_repo)"

definition example_first_run :: "(error + taf_repository) \<times> world" where
  "example_first_run =
     register_target_files rev example_fs example_auth example_taf_repo2
       (Some example_keystore_path) None False example_world2"

definition example_second_run :: "(error + taf_repository) \<times> world" where
  "example_second_run =
     register_target_files rev example_fs_reordered example_auth
       (registered_repo example_first_run) (Some example_keystore_path) None False example_world2"

section \<open>Properties\<close>

subsection \<open>JSON text\<close>

lemma newline_indent_4:
  "newline_indent 4 0 = [CHR 0x0A]"
  "newline_indent 4 (Suc 0) = CHR 0x0A # ''    ''"
  "newline_indent 4 (Suc (Suc 0)) = CHR 0x0A # ''        ''"
  "newline_indent 4 (Suc (Suc (Suc 0))) = CHR 0x0A # ''            ''"
  "newline_indent 4 (Suc (Suc (Suc (Suc 0)))) = CHR 0x0A # ''                ''"
  by (simp_all add: newline_indent_def numeral_eq_Suc)

lemma last_iterencode_dict: "last (iterencode w l (JDict kvs)) = CHR ''}''"
  by simp

lemma map_fst_dict_set:
  "map fst (dict_set k v d) = (if k \<in> fst ` set d then map fst d else map fst d @ [k])"
  by (simp add: dict_set_def update_keys)

lemma namespaced_name_inj: "namespaced_name ns a = namespaced_name ns b \<Longrightarrow> a = b"
  by (auto simp: namespaced_name_def split: if_splits)

lemma repositories_loop_keys:
  "distinct entries \<Longrightarrow> \<forall>e \<in> set entries. namespaced_name ns e \<notin> fst ` set acc \<Longrightarrow>
   map fst (repositories_loop fs repo_path td ns rel custom entries acc) =
     map fst acc @ map (namespaced_name ns) (listed_repositories fs repo_path td entries)"
proof (induction entries arbitrary: acc)
  case Nil
  then show ?case by (simp add: listed_repositories_def)
next
  case (Cons e es)
  show ?case
  proof (cases "is_dir fs (td @ [e]) \<and> td @ [e] \<noteq> repo_path \<and> git_repo_at fs (td @ [e]) \<noteq> None")
    case False
    with Cons show ?thesis by (auto simp: listed_repositories_def Let_def)
  next
    case True
    then obtain g where g: "git_repo_at fs (td @ [e]) = Some g" by auto
    let ?k = "namespaced_name ns e"
    have fresh: "?k \<notin> fst ` set acc" using Cons.prems by simp
    have step: "\<And>v. \<forall>x \<in> set es. namespaced_name ns x \<notin> fst ` set (dict_set ?k v acc)"
    proof
      fix v x assume x: "x \<in> set es"
      have "x \<noteq> e" using Cons.prems(1) x by auto
      hence ne: "namespaced_name ns x \<noteq> ?k" using namespaced_name_inj by blast
      have old: "namespaced_name ns x \<notin> fst ` set acc" using Cons.prems(2) x by simp
      have "set (map fst (dict_set ?k v acc)) = insert ?k (fst ` set acc)"
        using fresh by (simp add: map_fst_dict_set)
      hence "fst ` set (dict_set ?k v acc) = insert ?k (fst ` set acc)" by simp
      with ne old show "namespaced_name ns x \<notin> fst ` set (dict_set ?k v acc)" by simp
    qed
    have d: "distinct es" using Cons.prems by simp
    show ?thesis
      using True g fresh Cons.IH [OF d step]
      by (simp add: listed_repositories_def path_name_def map_fst_dict_set Let_def)
  qed
qed

subsection \<open>Target descriptors\<close>

text \<open>
  C7. For a target directory that is a git working copy with HEAD commit \<open>C\<close> and
  current branch \<open>B\<close>, and that is not the authentication repository, the descriptor
  that \<^verbatim>\<open>_update_target_repos\<close> writes is \<^verbatim>\<open>json.dumps\<close> with indent 4 of the
  object holding the commit, followed by the branch exactly when \<open>add_branch\<close> holds;
  the text ends with the closing brace, with no newline after it.
\<close>

theorem descriptor_content:
  assumes "is_dir fs target_repo_path" and "target_repo_path \<noteq> repo_path"
    and "git_repo_at fs target_repo_path = Some g"
    and "update_target_repos' fs repo_path targets_dir target_repo_path add_branch = Inr fs'"
  shows "files fs' (path_div targets_dir (path_name target_repo_path)) =
      Some (json_dumps 4 (JDict ((''commit'', JStr (head_commit_sha g)) #
         (if add_branch then [(''branch'', JStr (get_current_branch g))] else []))))
    \<and> json_dumps 4 (JDict ((''commit'', JStr (head_commit_sha g)) #
         (if add_branch then [(''branch'', JStr (get_current_branch g))] else [])))
       = descriptor_text (head_commit_sha g) (get_current_branch g) add_branch
    \<and> last (descriptor_text (head_commit_sha g) (get_current_branch g) add_branch) = CHR ''}''"
  using assms
  by (auto simp: update_target_repos'_def write_text_def target_repo_data_def dict_set_def
       json_dumps_def descriptor_text_def newline_indent_4 split: if_splits)

text \<open>The descriptor of \<^verbatim>\<open>/r/ns/repoA\<close> in the example, with its branch.\<close>

theorem descriptor_content_witness:
  "is_dir example_fs [''r'', ''ns'', ''repoA'']
   \<and> [''r'', ''ns'', ''repoA''] \<noteq> example_auth
   \<and> git_repo_at example_fs [''r'', ''ns'', ''repoA''] = Some example_repo
   \<and> written_file
        (update_target_repos' example_fs example_auth [''r'', ''ns'', ''auth'', ''targets'']
           [''r'', ''ns'', ''repoA''] True)
        [''r'', ''ns'', ''auth'', ''targets'', ''repoA'']
      = Some (text_lines
          [''{'',
           ''    '' @ quoted ''commit'' @ '': ''
              @ quoted ''4b825dc642cb6eb9a060e54bf8d69288fbee4904'' @ '','',
           ''    '' @ quoted ''branch'' @ '': '' @ quoted ''master'',
           ''}''])"
proof -
  let ?p = "[''r'', ''ns'', ''auth'', ''targets'', ''repoA'']"
  let ?fs' = "example_fs\<lparr>files := (files example_fs)(?p \<mapsto>
      json_dumps 4 (JDict (target_repo_data example_repo True)))\<rparr>"
  have a: "is_dir example_fs [''r'', ''ns'', ''repoA'']" by (simp add: example_fs_def)
  have b: "[''r'', ''ns'', ''repoA''] \<noteq> example_auth" by (simp add: example_auth_def)
  have c: "git_repo_at example_fs [''r'', ''ns'', ''repoA''] = Some example_repo"
    by (simp add: example_fs_def)
  have run: "update_target_repos' example_fs example_auth [''r'', ''ns'', ''auth'', ''targets'']
       [''r'', ''ns'', ''repoA''] True = Inr ?fs'"
    by (simp add: update_target_repos'_def example_fs_def example_auth_def write_text_def
        path_div_def components_def path_name_def path_parent_def)
  have p: "path_div [''r'', ''ns'', ''auth'', ''targets''] (path_name [''r'', ''ns'', ''repoA'']) = ?p"
    by (simp add: path_div_def components_def path_name_def)
  have text_eq: "descriptor_text (head_commit_sha example_repo) (get_current_branch example_repo) True
      = text_lines
          [''{'',
           ''    '' @ quoted ''commit'' @ '': ''
              @ quoted ''4b825dc642cb6eb9a060e54bf8d69288fbee4904'' @ '','',
           ''    '' @ quoted ''branch'' @ '': '' @ quoted ''master'',
           ''}'']"
    by (simp add: descriptor_text_def example_repo_def text_lines_def quoted_def
        encode_basestring_ascii_def py_escape_def)
  from descriptor_content [OF a b c run] have
    "files ?fs' ?p = Some (descriptor_text (head_commit_sha example_repo)
        (get_current_branch example_repo) True)"
    unfolding p by simp
  with a b c show ?thesis
    unfolding run text_eq written_file_def by simp
qed

subsection \<open>The repositories manifest\<close>

text \<open>
  C6, as stated, fails: in the example the operating system lists \<^verbatim>\<open>repoB\<close> before
  \<^verbatim>\<open>repoA\<close>, the keys are written in that order, and the last character of the file
  is the closing brace.
\<close>

theorem manifest_not_sorted_no_newline_counterexample:
  "written_file
     (generate_repositories_json example_fs example_auth None None (Some [''r'']) [])
     [''r'', ''ns'', ''auth'', ''targets'', ''repositories.json'']
   = Some (text_lines
       [''{'',
        ''    '' @ quoted ''repositories'' @ '': {'',
        ''        '' @ quoted ''ns/repoB'' @ '': {'',
        ''            '' @ quoted ''urls'' @ '': ['',
        ''                '' @ quoted ''ns/repoB'',
        ''            ]'',
        ''        },'',
        ''        '' @ quoted ''ns/repoA'' @ '': {'',
        ''            '' @ quoted ''urls'' @ '': ['',
        ''                '' @ quoted ''ns/repoA'',
        ''            ]'',
        ''        }'',
        ''    }'',
        ''}''])
   \<and> \<not> sorted [''ns/repoB'', ''ns/repoA'']
   \<and> last (text_lines [''    }'', ''}'']) \<noteq> CHR 0x0A"
  by code_simp

text \<open>
  C6, amended. \<^verbatim>\<open>generate_repositories_json\<close> writes \<^verbatim>\<open>targets/repositories.json\<close>
  as \<^verbatim>\<open>json.dumps\<close> with indent 4 of the object with the one member
  \<^verbatim>\<open>"repositories"\<close>; the keys of that member are the namespaced names of the listed
  git repositories in the order of the directory listing, and the text ends with the
  closing brace.
\<close>

theorem manifest_in_listing_order:
  assumes "generate_repositories_json fs repo_path root_dir namespace rel custom = Inr fs'"
    and "get_namespace_and_root' repo_path namespace root_dir = (ns, rd)"
    and "distinct (glob_star fs (path_div rd ns))"
  shows "\<exists>repositories.
      files fs' (path_div (path_div repo_path TARGETS_DIRECTORY_NAME) ''repositories.json'')
        = Some (json_dumps 4 (JDict [(''repositories'', JDict repositories)]))
    \<and> map fst repositories
        = map (namespaced_name ns)
            (listed_repositories fs repo_path (path_div rd ns) (glob_star fs (path_div rd ns)))
    \<and> last (json_dumps 4 (JDict [(''repositories'', JDict repositories)])) = CHR ''}''"
proof -
  let ?td = "path_div rd ns"
  let ?R = "repositories_loop fs repo_path ?td ns rel custom (glob_star fs ?td) []"
  have keys: "map fst ?R = map (namespaced_name ns)
      (listed_repositories fs repo_path ?td (glob_star fs ?td))"
    using repositories_loop_keys [OF assms(3), of ns "[]"] by simp
  have written: "files fs' (path_div (path_div repo_path TARGETS_DIRECTORY_NAME) ''repositories.json'')
      = Some (json_dumps 4 (JDict [(''repositories'', JDict ?R)]))"
    using assms(1,2)
    by (auto simp: generate_repositories_json_def repositories_json_text_def write_text_def
        Let_def split: if_splits)
  have "last (json_dumps 4 (JDict [(''repositories'', JDict ?R)])) = CHR ''}''"
    unfolding json_dumps_def by (rule last_iterencode_dict)
  with keys written show ?thesis by blast
qed

text \<open>The manifest of the example.\<close>

theorem manifest_in_listing_order_witness:
  "get_namespace_and_root' example_auth None None = (''ns'', [''r''])
   \<and> distinct (glob_star example_fs (path_div [''r''] ''ns''))
   \<and> (\<exists>repositories.
        written_file
          (generate_repositories_json example_fs example_auth None None (Some [''r'']) [])
          [''r'', ''ns'', ''auth'', ''targets'', ''repositories.json'']
          = Some (json_dumps 4 (JDict [(''repositories'', JDict repositories)]))
      \<and> map fst repositories = [''ns/repoB'', ''ns/repoA'']
      \<and> last (json_dumps 4 (JDict [(''repositories'', JDict repositories)])) = CHR ''}'')"
proof -
  have ns: "get_namespace_and_root' example_auth None None = (''ns'', [''r''])"
    by (simp add: get_namespace_and_root'_def example_auth_def path_name_def path_parent_def)
  have td: "path_div [''r''] ''ns'' = [''r'', ''ns'']"
    by (simp add: path_div_def components_def)
  have d: "distinct (glob_star example_fs (path_div [''r''] ''ns''))"
    unfolding td by (simp add: example_fs_def)
  have p: "path_div (path_div example_auth TARGETS_DIRECTORY_NAME) ''repositories.json''
      = [''r'', ''ns'', ''auth'', ''targets'', ''repositories.json'']"
    by (simp add: path_div_def components_def example_auth_def TARGETS_DIRECTORY_NAME_def)
  have "\<exists>fs'. generate_repositories_json example_fs example_auth None None (Some [''r'']) []
      = Inr fs'"
    unfolding generate_repositories_json_def ns Let_def write_text_def p
    by (simp add: example_fs_def path_parent_def)
  then obtain fs' where run:
    "generate_repositories_json example_fs example_auth None None (Some [''r'']) [] = Inr fs'"
    by blast
  have l: "listed_repositories example_fs example_auth [''r'', ''ns'']
      (glob_star example_fs [''r'', ''ns'']) = [''repoB'', ''repoA'']"
    by (simp add: listed_repositories_def example_fs_def example_auth_def)
  from manifest_in_listing_order [OF run ns d] obtain repositories where
    "files fs' [''r'', ''ns'', ''auth'', ''targets'', ''repositories.json'']
       = Some (json_dumps 4 (JDict [(''repositories'', JDict repositories)]))"
    "map fst repositories = [''ns/repoB'', ''ns/repoA'']"
    "last (json_dumps 4 (JDict [(''repositories'', JDict repositories)])) = CHR ''}''"
    unfolding p td l by (auto simp: namespaced_name_def)
  with ns d show ?thesis unfolding run written_file_def by auto
qed

subsection \<open>Target descriptors from the manifest\<close>

text \<open>
  C8. The specification asks for a fall-back to the targets directory of the
  authentication repository when a repository name has no slash. The code has none:
  with the single name \<^verbatim>\<open>repoA\<close> the use of the unbound \<^verbatim>\<open>targets_dir\<close> raises
  \<^verbatim>\<open>UnboundLocalError\<close>; after the name \<^verbatim>\<open>ns/repoB\<close> the descriptor of
  \<^verbatim>\<open>repoA\<close> is written into \<^verbatim>\<open>targets/ns\<close>, the directory of the name before it,
  and not into \<^verbatim>\<open>targets\<close>.
\<close>

theorem name_without_slash_unbound_targets_dir:
  "raised (update_target_repos_from_repositories_json example_fs
     (JDict [(''repositories'', JDict [(''repoA'', JDict [(''urls'', JList [JStr ''x''])])])])
     example_auth (Some [''r'', ''ns'']) None True)
   = Some UnboundLocalError
   \<and> written_file
       (update_target_repos_from_repositories_json example_fs
          (JDict [(''repositories'',
             JDict [(''ns/repoB'', JDict [(''urls'', JList [JStr ''x''])]),
                    (''repoA'', JDict [(''urls'', JList [JStr ''x''])])])])
          example_auth (Some [''r'', ''ns'']) None False)
       [''r'', ''ns'', ''auth'', ''targets'', ''repoA''] = None
   \<and> written_file
       (update_target_repos_from_repositories_json example_fs
          (JDict [(''repositories'',
             JDict [(''ns/repoB'', JDict [(''urls'', JList [JStr ''x''])]),
                    (''repoA'', JDict [(''urls'', JList [JStr ''x''])])])])
          example_auth (Some [''r'', ''ns'']) None False)
       [''r'', ''ns'', ''auth'', ''targets'', ''ns'', ''repoA'']
     = Some (text_lines
          [''{'',
           ''    '' @ quoted ''commit'' @ '': ''
              @ quoted ''4b825dc642cb6eb9a060e54bf8d69288fbee4904'',
           ''}''])"
  by code_simp

subsection \<open>Loading keys\<close>

lemma confirm_tokens:
  "confirm q w = (r, w') \<Longrightarrow> inserted_tokens w' = inserted_tokens w"
  by (auto simp: confirm_def log_def split: list.splits)

lemma key_cmd_prompt_tokens:
  "key_cmd_prompt n w = (r, w') \<Longrightarrow> inserted_tokens w' = inserted_tokens w"
  by (auto simp: key_cmd_prompt_def log_def split: list.splits)

lemma yubikey_prompt_tokens:
  "yubikey_prompt n role loaded w = (Inr x, w') \<Longrightarrow>
     Suc (length (inserted_tokens w')) = length (inserted_tokens w)"
  by (auto simp: yubikey_prompt_def log_def Let_def split: list.splits sum.splits)

lemma load_from_keystore_result:
  "load_from_keystore names keys num w = (Inr (keys', num'), w') \<Longrightarrow>
     length keys' = length keys + length (filter (\<lambda>n. keystore_private w n \<noteq> None) names)
   \<and> num' = num + length (filter (\<lambda>n. keystore_private w n \<noteq> None) names)
   \<and> inserted_tokens w' = inserted_tokens w"
proof (induction names arbitrary: keys num w)
  case Nil
  then show ?case by simp
next
  case (Cons n ns)
  show ?case
  proof (cases "keystore_private w n = None")
    case True
    with Cons show ?thesis by simp
  next
    case False
    let ?w1 = "log (Read_private_key n) w"
    from False Cons.prems obtain k where
      rec: "load_from_keystore ns (keys @ [k]) (Suc num) ?w1 = (Inr (keys', num'), w')"
      by (auto simp: read_private_key_from_keystore_def split: sum.splits option.splits)
    have same: "keystore_private ?w1 = keystore_private w" "inserted_tokens ?w1 = inserted_tokens w"
      by (simp_all add: log_def)
    from Cons.IH [OF rec] False show ?thesis by (simp add: same)
  qed
qed

lemma load_keys_step_result:
  assumes "load_keys_step role T N infos al num keys loaded w = (Inr (al', keys', loaded'), w')"
  shows "length (inserted_tokens w') \<le> length (inserted_tokens w)
    \<and> (al' \<longrightarrow> keys' = keys \<and> inserted_tokens w' = inserted_tokens w \<and> (T \<le> num \<or> al))
    \<and> (\<not> al' \<longrightarrow> length keys' + length (inserted_tokens w) =
           Suc (length keys + length (inserted_tokens w')))"
  using assms
  unfolding load_keys_step_def Let_def
  by (auto split: if_splits prod.splits sum.splits option.splits
      dest!: confirm_tokens key_cmd_prompt_tokens yubikey_prompt_tokens)

lemma load_keys_loop_all_loaded:
  "load_keys_loop role T N infos True num keys loaded w = (Inr (keys, loaded), w)"
  by (subst load_keys_loop.simps) simp

lemma load_keys_loop_result:
  "load_keys_loop role T N infos al num keys loaded w = (Inr (keys', loaded'), w') \<Longrightarrow>
     length (inserted_tokens w') \<le> length (inserted_tokens w)
   \<and> length keys' + num \<le> length keys + max N num
   \<and> (\<not> al \<longrightarrow> T \<le> N \<longrightarrow>
        T + length keys + length (inserted_tokens w')
          \<le> num + length keys' + length (inserted_tokens w))"
proof (induction role T N infos al num keys loaded w rule: load_keys_loop.induct)
  case (1 role T N infos al num keys loaded w)
  show ?case
  proof (cases "\<not> al \<and> num < N")
    case False
    with "1.prems" show ?thesis
      by (auto simp: load_keys_loop.simps [of role T N infos al num keys loaded w])
  next
    case True
    have unfold: "load_keys_loop role T N infos al num keys loaded w =
        (case load_keys_step role T N infos al num keys loaded w of
           (Inl e, w1) \<Rightarrow> (Inl e, w1)
         | (Inr (al1, keys1, loaded1), w1) \<Rightarrow>
             load_keys_loop role T N infos al1 (Suc num) keys1 loaded1 w1)"
      using True by (subst load_keys_loop.simps) simp
    obtain r w1 where sr: "load_keys_step role T N infos al num keys loaded w = (r, w1)"
      by (cases "load_keys_step role T N infos al num keys loaded w") auto
    with unfold "1.prems" obtain al1 keys1 loaded1 where
      step: "load_keys_step role T N infos al num keys loaded w = (Inr (al1, keys1, loaded1), w1)"
      and rest: "load_keys_loop role T N infos al1 (Suc num) keys1 loaded1 w1
                  = (Inr (keys', loaded'), w')"
      by (cases r) auto
    note s = load_keys_step_result [OF step]
    note ih = "1.IH" [OF True step [symmetric] refl refl refl rest]
    show ?thesis
    proof (cases al1)
      case True
      with rest have "keys' = keys1" "w' = w1"
        by (simp_all add: load_keys_loop_all_loaded)
      with s True \<open>\<not> al \<and> num < N\<close> show ?thesis by auto
    next
      case False
      with s ih \<open>\<not> al \<and> num < N\<close> show ?thesis by auto
    qed
  qed
qed

text \<open>
  C4, as stated, fails: a key that is read from a token is not added to the returned
  list. For the targets role of the example (threshold 1, one key, kept on a YubiKey)
  the list is empty.
\<close>

theorem token_keys_not_returned_counterexample:
  "fst (load_signing_keys' example_taf_repo ''targets'' (Some example_keystore_path)
          (Some [(''targets'', yubikey_info)]) (Some []) example_world)
     = Inr ([], Some [(''serial-1'', [''targets''])])
   \<and> role_threshold example_taf_repo ''targets'' = 1
   \<and> length (role_keys example_taf_repo ''targets'') = 1"
  by code_simp

text \<open>
  C4, amended. Let the threshold \<open>T\<close> of the role be at most its number of keys \<open>N\<close>,
  and let the keystore hold at most \<open>N\<close> of the \<open>N + 1\<close> candidate files. Then the
  returned list has at most \<open>N\<close> keys, and the keys of the list together with the
  tokens that were prompted for are at least \<open>T\<close>; with no token, the list itself has at
  least \<open>T\<close> keys.
\<close>

theorem loaded_keys_bounds:
  assumes "load_signing_keys' taf_repo role keystore infos loaded w = (Inr (keys, loaded'), w')"
    and "role_threshold taf_repo role \<le> length (role_keys taf_repo role)"
    and "length (existing_key_files w role (length (role_keys taf_repo role)))
           \<le> length (role_keys taf_repo role)"
  shows "length keys \<le> length (role_keys taf_repo role)
    \<and> role_threshold taf_repo role \<le> length keys + tokens_prompted w w'
    \<and> (tokens_prompted w w' = 0 \<longrightarrow> role_threshold taf_repo role \<le> length keys)"
proof -
  let ?T = "role_threshold taf_repo role"
  let ?N = "length (role_keys taf_repo role)"
  from assms(1) obtain keys0 num0 w0 where
    pre: "(case keystore of None \<Rightarrow> (Inr ([], 0), w)
           | Some ks \<Rightarrow> load_from_keystore (key_names role ?N) [] 0 w) = (Inr (keys0, num0), w0)"
    and loop: "load_keys_loop role ?T ?N infos False num0 keys0 loaded w0 = (Inr (keys, loaded'), w')"
    by (auto simp: load_signing_keys'_def Let_def split: prod.splits sum.splits)
  have p: "length keys0 = num0 \<and> num0 \<le> ?N \<and> inserted_tokens w0 = inserted_tokens w"
  proof (cases keystore)
    case None
    with pre show ?thesis by auto
  next
    case (Some ks)
    with pre have "load_from_keystore (key_names role ?N) [] 0 w = (Inr (keys0, num0), w0)"
      by simp
    from load_from_keystore_result [OF this] assms(3) show ?thesis
      by (simp add: existing_key_files_def)
  qed
  from load_keys_loop_result [OF loop] assms(2) p
  show ?thesis by (auto simp: tokens_prompted_def max_def split: if_splits)
qed

text \<open>The three root keys of the example, all from the keystore.\<close>

theorem loaded_keys_bounds_witness:
  "fst (load_signing_keys' example_taf_repo ''root'' (Some example_keystore_path) None (Some [])
          example_world) = Inr ([''root1-key'', ''root2-key'', ''root3-key''], Some [])
   \<and> role_threshold example_taf_repo ''root'' \<le> length (role_keys example_taf_repo ''root'')
   \<and> length (existing_key_files example_world ''root''
         (length (role_keys example_taf_repo ''root'')))
       \<le> length (role_keys example_taf_repo ''root'')
   \<and> length [''root1-key'', ''root2-key'', ''root3-key'']
       \<le> length (role_keys example_taf_repo ''root'')
   \<and> role_threshold example_taf_repo ''root''
       \<le> length [''root1-key'', ''root2-key'', ''root3-key''] +
          tokens_prompted example_world
            (snd (load_signing_keys' example_taf_repo ''root'' (Some example_keystore_path) None
                    (Some []) example_world))"
proof -
  let ?run = "load_signing_keys' example_taf_repo ''root'' (Some example_keystore_path) None
      (Some []) example_world"
  have f: "fst ?run = Inr ([''root1-key'', ''root2-key'', ''root3-key''], Some [])"
    by code_simp
  then have run: "?run = (Inr ([''root1-key'', ''root2-key'', ''root3-key''], Some []), snd ?run)"
    by (cases ?run) simp
  have a: "role_threshold example_taf_repo ''root'' \<le> length (role_keys example_taf_repo ''root'')"
    by code_simp
  have b: "length (existing_key_files example_world ''root''
         (length (role_keys example_taf_repo ''root'')))
       \<le> length (role_keys example_taf_repo ''root'')"
    by code_simp
  from loaded_keys_bounds [OF run a b] f a b show ?thesis by simp
qed

subsection \<open>Writing the targets metadata\<close>

lemma load_signing_keys_call:
  "load_signing_keys' (call c taf_repo) = load_signing_keys' taf_repo"
  by (rule ext)+ (simp add: load_signing_keys'_def call_def)

lemma keys_passed_append: "keys_passed role (xs @ ys) = keys_passed role xs @ keys_passed role ys"
  by (simp add: keys_passed_def)

lemma write_targets_metadata_calls:
  assumes "write_targets_metadata' taf_repo keystore infos w = (Inr taf_repo', w')"
  shows "\<exists>cs sk tk. calls taf_repo' =
            calls taf_repo @ cs @ [Update_snapshot_and_timestmap sk tk, Repo_writeall]
        \<and> (cs = [] \<or> (\<exists>k. cs = [Update_targets_from_keystore k]) \<or> (\<exists>pin. cs = [Update_targets pin]))
        \<and> role_threshold taf_repo' = role_threshold taf_repo"
  using assms
  unfolding write_targets_metadata'_def Let_def
  by (auto simp: call_def load_signing_keys_call split: prod.splits sum.splits if_splits option.splits)

text \<open>
  C10. \<^verbatim>\<open>_write_targets_metadata\<close> hands the repository the first key of each loaded
  list and no other: whatever the three calls of \<^verbatim>\<open>_load_signing_keys\<close> return, the
  keys passed for targets, snapshot and timestamp are the heads of the lists, so at most
  one key of the keystore signs for a role, which is below every threshold greater
  than one.
\<close>

theorem only_first_key_of_each_role_is_used:
  assumes "calls taf_repo = []"
    and "load_signing_keys' taf_repo ''targets'' keystore infos (Some []) w
           = (Inr (targets_keys, loaded), w1)"
    and "load_signing_keys' taf_repo ''snapshot'' keystore infos None w1
           = (Inr (snapshot_keys, loaded2), w2)"
    and "load_signing_keys' taf_repo ''timestamp'' keystore infos None w2
           = (Inr (timestamp_keys, loaded3), w3)"
    and "snapshot_keys \<noteq> []" and "timestamp_keys \<noteq> []"
  shows "\<exists>taf_repo'. write_targets_metadata' taf_repo keystore infos w = (Inr taf_repo', w3)
     \<and> keys_passed ''targets'' (calls taf_repo') = take 1 targets_keys
     \<and> keys_passed ''snapshot'' (calls taf_repo') = [hd snapshot_keys]
     \<and> keys_passed ''timestamp'' (calls taf_repo') = [hd timestamp_keys]
     \<and> (\<forall>role. length (keys_passed role (calls taf_repo')) \<le> 1)
     \<and> (\<forall>role. 1 < role_threshold taf_repo role \<longrightarrow>
           length (keys_passed role (calls taf_repo')) < role_threshold taf_repo role)"
proof -
  define taf_repo1 where "taf_repo1 =
    (if targets_keys \<noteq> [] then call (Update_targets_from_keystore (hd targets_keys)) taf_repo
     else (case first_targets_yubikey loaded of
             None \<Rightarrow> taf_repo
           | Some serial_num \<Rightarrow> call (Update_targets (key_pin w1 serial_num)) taf_repo))"
  define taf_repo2 where "taf_repo2 =
    call Repo_writeall
      (call (Update_snapshot_and_timestmap (hd snapshot_keys) (hd timestamp_keys)) taf_repo1)"
  have l1: "load_signing_keys' taf_repo1 = load_signing_keys' taf_repo"
    by (simp add: taf_repo1_def load_signing_keys_call split: option.splits)
  have run: "write_targets_metadata' taf_repo keystore infos w = (Inr taf_repo2, w3)"
    unfolding write_targets_metadata'_def Let_def taf_repo2_def
    using assms(2-6) by (simp add: taf_repo1_def [symmetric] l1)
  have c1: "calls taf_repo1 =
      (if targets_keys \<noteq> [] then [Update_targets_from_keystore (hd targets_keys)]
       else (case first_targets_yubikey loaded of
               None \<Rightarrow> [] | Some serial_num \<Rightarrow> [Update_targets (key_pin w1 serial_num)]))"
    using assms(1) by (simp add: taf_repo1_def call_def split: option.splits)
  have c2: "calls taf_repo2 = calls taf_repo1 @
      [Update_snapshot_and_timestmap (hd snapshot_keys) (hd timestamp_keys), Repo_writeall]"
    by (simp add: taf_repo2_def call_def)
  have t: "keys_passed ''targets'' (calls taf_repo2) = take 1 targets_keys"
    unfolding c2 c1
    by (cases targets_keys; cases "first_targets_yubikey loaded") (simp_all add: keys_passed_def)
  have s: "keys_passed ''snapshot'' (calls taf_repo2) = [hd snapshot_keys]"
    unfolding c2 c1
    by (cases targets_keys; cases "first_targets_yubikey loaded") (simp_all add: keys_passed_def)
  have ts: "keys_passed ''timestamp'' (calls taf_repo2) = [hd timestamp_keys]"
    unfolding c2 c1
    by (cases targets_keys; cases "first_targets_yubikey loaded") (simp_all add: keys_passed_def)
  have one: "length (keys_passed role (calls taf_repo2)) \<le> 1" for role
    unfolding c2 c1
    by (cases targets_keys; cases "first_targets_yubikey loaded") (simp_all add: keys_passed_def)
  have "1 < role_threshold taf_repo role \<longrightarrow>
      length (keys_passed role (calls taf_repo2)) < role_threshold taf_repo role" for role
    using one [of role] by simp
  with run t s ts one show ?thesis by blast
qed

text \<open>
  In the second example both snapshot keys are loaded, the threshold is two, and only
  the first key is passed on.
\<close>

theorem only_first_key_of_each_role_is_used_witness:
  "calls example_taf_repo2 = []
   \<and> fst (load_signing_keys' example_taf_repo2 ''targets'' (Some example_keystore_path) None
            (Some []) example_world2) = Inr ([''targets-key''], Some [])
   \<and> fst (load_signing_keys' example_taf_repo2 ''snapshot'' (Some example_keystore_path) None
            None example_world2_after_targets)
        = Inr ([''snapshot1-key'', ''snapshot2-key''], None)
   \<and> fst (load_signing_keys' example_taf_repo2 ''timestamp'' (Some example_keystore_path) None
            None example_world2_after_snapshot) = Inr ([''timestamp-key''], None)
   \<and> role_threshold example_taf_repo2 ''snapshot'' = 2
   \<and> (\<exists>taf_repo'.
         fst (write_targets_metadata' example_taf_repo2 (Some example_keystore_path) None
                example_world2) = Inr taf_repo'
       \<and> keys_passed ''snapshot'' (calls taf_repo') = [''snapshot1-key'']
       \<and> length (keys_passed ''snapshot'' (calls taf_repo'))
           < role_threshold example_taf_repo2 ''snapshot'')"
proof -
  let ?ks = "Some example_keystore_path"
  let ?l1 = "load_signing_keys' example_taf_repo2 ''targets'' ?ks None (Some []) example_world2"
  let ?l2 = "load_signing_keys' example_taf_repo2 ''snapshot'' ?ks None None
      example_world2_after_targets"
  let ?l3 = "load_signing_keys' example_taf_repo2 ''timestamp'' ?ks None None
      example_world2_after_snapshot"
  have c: "calls example_taf_repo2 = []" by (simp add: example_taf_repo2_def)
  have f1: "fst ?l1 = Inr ([''targets-key''], Some [])" by code_simp
  have f2: "fst ?l2 = Inr ([''snapshot1-key'', ''snapshot2-key''], None)" by code_simp
  have f3: "fst ?l3 = Inr ([''timestamp-key''], None)" by code_simp
  have th: "role_threshold example_taf_repo2 ''snapshot'' = 2"
    by (simp add: example_taf_repo2_def)
  have r1: "?l1 = (Inr ([''targets-key''], Some []), example_world2_after_targets)"
    using f1 by (cases ?l1) (simp add: example_world2_after_targets_def)
  have r2: "?l2 = (Inr ([''snapshot1-key'', ''snapshot2-key''], None),
      example_world2_after_snapshot)"
    using f2 by (cases ?l2) (simp add: example_world2_after_snapshot_def)
  have r3: "?l3 = (Inr ([''timestamp-key''], None), snd ?l3)"
    using f3 by (cases ?l3) simp
  from only_first_key_of_each_role_is_used [OF c r1 r2 r3]
  obtain taf_repo' where
    "write_targets_metadata' example_taf_repo2 ?ks None example_world2 = (Inr taf_repo', snd ?l3)"
    "keys_passed ''snapshot'' (calls taf_repo') = [''snapshot1-key'']"
    "length (keys_passed ''snapshot'' (calls taf_repo'))
       < role_threshold example_taf_repo2 ''snapshot''"
    using th by auto
  with c f1 f2 f3 th show ?thesis by auto
qed

subsection \<open>Refreshing an expiration date\<close>

lemma keystore_method:
  "map_of update_methods (role @ ''_keystore'') =
     (if role = ''timestamp'' then Some update_timestamp
      else if role = ''snapshot'' then Some update_snapshot
      else if role = ''targets'' then Some update_targets_from_keystore
      else None)"
proof -
  have a: "''timestamp_keystore'' = ''timestamp'' @ ''_keystore''"
    "''snapshot_keystore'' = ''snapshot'' @ ''_keystore''"
    "''targets_keystore'' = ''targets'' @ ''_keystore''" by simp_all
  have b: "role @ ''_keystore'' \<noteq> ''targets_yubikey''"
  proof
    assume "role @ ''_keystore'' = ''targets_yubikey''"
    then have "last (role @ ''_keystore'') = last ''targets_yubikey''" by simp
    then show False by simp
  qed
  show ?thesis
    unfolding update_methods_def map_of.simps fst_conv snd_conv a append_same_eq
    using b by (simp only: a [symmetric] if_False fun_upd_apply split: if_splits) auto
qed

lemma yubikey_method:
  "map_of update_methods (role @ ''_yubikey'') =
     (if role = ''targets'' then Some update_targets else None)"
proof -
  have a: "''targets_yubikey'' = ''targets'' @ ''_yubikey''" by simp
  have b: "role @ ''_yubikey'' \<noteq> s @ ''_keystore''" for s
  proof
    assume "role @ ''_yubikey'' = s @ ''_keystore''"
    then have "last (role @ ''_yubikey'') = last (s @ ''_keystore'')" by simp
    then show False by simp
  qed
  have c: "role @ ''_yubikey'' \<noteq> ''timestamp_keystore''"
    "role @ ''_yubikey'' \<noteq> ''snapshot_keystore''"
    "role @ ''_yubikey'' \<noteq> ''targets_keystore''"
    using b [of "''timestamp''"] b [of "''snapshot''"] b [of "''targets''"] by simp_all
  have d: "(role @ ''_yubikey'' = ''targets_yubikey'') = (role = ''targets'')"
    unfolding a by (rule append_same_eq)
  show ?thesis
    unfolding update_methods_def using c d by simp
qed

lemma input_line_error: "input_line w = (Inl e, w') \<Longrightarrow> e = Abort"
  by (auto simp: input_line_def split: list.splits)

lemma keystore_method_role:
  "role \<in> {''timestamp'', ''snapshot'', ''targets''} \<Longrightarrow>
     \<exists>m. map_of update_methods (role @ ''_keystore'') = Some m \<and> method_role m = role"
  by (auto simp: keystore_method method_role_def)

lemma keystore_method_none:
  "role \<notin> {''timestamp'', ''snapshot'', ''targets''} \<Longrightarrow>
     map_of update_methods (role @ ''_keystore'') = None"
  by (simp add: keystore_method)

lemma yubikey_method_role:
  "\<exists>m. map_of update_methods (''targets'' @ ''_yubikey'') = Some m \<and> method_role m = ''targets''"
  by (simp add: update_methods_def method_role_def)

lemma yubikey_method_none:
  "role \<noteq> ''targets'' \<Longrightarrow> map_of update_methods (role @ ''_yubikey'') = None"
  by (simp add: yubikey_method)

lemma try_update_none:
  "map_of update_methods name = None \<Longrightarrow>
     try_update name key_or_pin msg start_date interval taf_repo w
       = (Inr (), taf_repo, log (Print msg) w)"
  by (simp add: try_update_def)

lemma try_update_some:
  "map_of update_methods name = Some m \<Longrightarrow>
     try_update name key_or_pin msg start_date interval taf_repo w
       = (if start_date + timedelta_days interval \<le> expiration taf_repo (method_role m)
          then (Inl MonotonicViolation, taf_repo, w)
          else (Inr (),
                call (method_call m key_or_pin)
                  (taf_repo\<lparr>expiration := (expiration taf_repo)
                     (method_role m := start_date + timedelta_days interval)\<rparr>), w))"
  by (simp add: try_update_def run_update_method_def Let_def)

lemma try_update_refreshed:
  assumes "map_of update_methods name = Some m" and "method_role m = role"
  shows "refreshed taf_repo role start_date interval
           (try_update name key_or_pin msg start_date interval taf_repo w)"
  unfolding try_update_some [OF assms(1)] assms(2) refreshed_def
  by (simp add: call_def)

lemma update_with_loaded_keys_other_role:
  assumes "role \<notin> {''timestamp'', ''snapshot'', ''targets''}"
  shows "fst (update_with_loaded_keys taf_repo role keys loaded start_date interval w) = Inr ()
    \<and> fst (snd (update_with_loaded_keys taf_repo role keys loaded start_date interval w)) = taf_repo"
proof -
  have k: "map_of update_methods (role @ ''_keystore'') = None"
    using assms by (rule keystore_method_none)
  have y: "map_of update_methods (role @ ''_yubikey'') = None"
    using assms by (intro yubikey_method_none) simp
  show ?thesis
    unfolding update_with_loaded_keys_def
    by (simp add: try_update_none [OF k] try_update_none [OF y] split: option.splits)
qed

lemma update_with_loaded_keys_refreshed:
  assumes "role \<in> {''timestamp'', ''snapshot'', ''targets''}"
    and "keys \<noteq> [] \<or> role = ''targets'' \<and> first_targets_yubikey loaded \<noteq> None"
  shows "refreshed taf_repo role start_date interval
           (update_with_loaded_keys taf_repo role keys loaded start_date interval w)"
proof (cases "keys \<noteq> []")
  case True
  from keystore_method_role [OF assms(1)] obtain m where
    m: "map_of update_methods (role @ ''_keystore'') = Some m" "method_role m = role" by blast
  show ?thesis
    unfolding update_with_loaded_keys_def using True try_update_refreshed [OF m] by simp
next
  case False
  with assms(2) obtain serial_num where
    r: "role = ''targets''" and s: "first_targets_yubikey loaded = Some serial_num" by auto
  from yubikey_method_role obtain m where
    m: "map_of update_methods (role @ ''_yubikey'') = Some m" "method_role m = role"
    unfolding r by blast
  show ?thesis
    unfolding update_with_loaded_keys_def using False s try_update_refreshed [OF m] by simp
qed

lemma update_with_loaded_keys_any:
  "fst (update_with_loaded_keys taf_repo role keys loaded start_date interval w) = Inr () \<Longrightarrow>
     fst (snd (update_with_loaded_keys taf_repo role keys loaded start_date interval w)) = taf_repo
     \<or> expiration taf_repo role
          < expiration (fst (snd (update_with_loaded_keys taf_repo role keys loaded start_date
                                    interval w))) role
      \<and> expiration (fst (snd (update_with_loaded_keys taf_repo role keys loaded start_date
                                 interval w))) role = start_date + timedelta_days interval"
proof (cases "role \<in> {''timestamp'', ''snapshot'', ''targets''}
      \<and> (keys \<noteq> [] \<or> role = ''targets'' \<and> first_targets_yubikey loaded \<noteq> None)")
  case True
  assume ok: "fst (update_with_loaded_keys taf_repo role keys loaded start_date interval w) = Inr ()"
  from True have "refreshed taf_repo role start_date interval
           (update_with_loaded_keys taf_repo role keys loaded start_date interval w)"
    by (intro update_with_loaded_keys_refreshed) auto
  with ok show ?thesis by (auto simp: refreshed_def split: if_splits)
next
  case False
  show ?thesis
  proof (cases "role \<in> {''timestamp'', ''snapshot'', ''targets''}")
    case False
    from update_with_loaded_keys_other_role [OF this] show ?thesis by simp
  next
    case True
    with \<open>\<not> (role \<in> {''timestamp'', ''snapshot'', ''targets''}
      \<and> (keys \<noteq> [] \<or> role = ''targets'' \<and> first_targets_yubikey loaded \<noteq> None))\<close>
    have k: "keys = []" and y: "role \<noteq> ''targets'' \<or> first_targets_yubikey loaded = None"
      by auto
    show ?thesis
    proof (cases "first_targets_yubikey loaded")
      case None
      with k show ?thesis by (simp add: update_with_loaded_keys_def)
    next
      case (Some serial_num)
      with y have "role \<noteq> ''targets''" by simp
      from yubikey_method_none [OF this] k Some show ?thesis
        by (simp add: update_with_loaded_keys_def try_update_none)
    qed
  qed
qed

lemma update_with_loaded_keys_other_role_report:
  assumes "role \<notin> {''timestamp'', ''snapshot'', ''targets''}" and "keys \<noteq> []"
  shows "snd (snd (update_with_loaded_keys taf_repo role keys loaded start_date interval w))
           = log (Print (Cannot_update_from_keystore role)) w"
proof -
  have k: "map_of update_methods (role @ ''_keystore'') = None"
    using assms(1) by (rule keystore_method_none)
  show ?thesis
    unfolding update_with_loaded_keys_def using assms(2) by (simp add: try_update_none [OF k])
qed

lemma update_metadata_expiration_date_unfold:
  assumes "load_signing_keys' taf_repo role keystore None (Some []) w = (Inr (keys, loaded), w1)"
    and "update_with_loaded_keys taf_repo role keys loaded start_date interval w1 = (r1, repo1, w2)"
  shows "update_metadata_expiration_date taf_repo role interval keystore start_date commit w =
     (case r1 of
        Inl e \<Rightarrow> (Inl e, repo1, w2)
      | Inr x \<Rightarrow>
          if commit
          then (case input_line (log (Print (Updated_expiration role)) w2) of
                  (Inl e, w4) \<Rightarrow> (Inl e, repo1, w4)
                | (Inr commit_message, w4) \<Rightarrow>
                    (Inr (), repo1, log (Git_commit commit_message) w4))
          else (Inr (), repo1, log (Print (Updated_expiration role)) w2))"
  by (cases r1) (simp_all add: update_metadata_expiration_date_def assms Let_def)

lemma update_metadata_expiration_date_outcome:
  assumes "load_signing_keys' taf_repo role keystore None (Some []) w = (Inr (keys, loaded), w1)"
    and "update_with_loaded_keys taf_repo role keys loaded start_date interval w1 = (r1, repo1, w2)"
    and "update_metadata_expiration_date taf_repo role interval keystore start_date commit w
           = (res, taf_repo', w')"
  shows "taf_repo' = repo1 \<and> (res = Inr () \<longrightarrow> r1 = Inr ())
      \<and> (r1 = Inl MonotonicViolation \<longrightarrow> res = Inl MonotonicViolation)
      \<and> (res = Inl MonotonicViolation \<longrightarrow> r1 = Inl MonotonicViolation)"
proof (cases r1)
  case (Inl e)
  with assms(3) show ?thesis
    unfolding update_metadata_expiration_date_unfold [OF assms(1,2)] by auto
next
  case (Inr x)
  show ?thesis
  proof (cases commit)
    case False
    with Inr assms(3) show ?thesis
      unfolding update_metadata_expiration_date_unfold [OF assms(1,2)] by auto
  next
    case True
    obtain r w4 where i: "input_line (log (Print (Updated_expiration role)) w2) = (r, w4)"
      by (cases "input_line (log (Print (Updated_expiration role)) w2)") auto
    show ?thesis
    proof (cases r)
      case (Inl e)
      with i have "e = Abort" by (auto dest: input_line_error)
      with Inl i True Inr assms(3) show ?thesis
        unfolding update_metadata_expiration_date_unfold [OF assms(1,2)] by auto
    next
      case (Inr m)
      with i True \<open>r1 = Inr x\<close> assms(3) show ?thesis
        unfolding update_metadata_expiration_date_unfold [OF assms(1,2)] by auto
    qed
  qed
qed

lemma update_metadata_expiration_date_end:
  assumes "load_signing_keys' taf_repo role keystore None (Some []) w = (Inr (keys, loaded), w1)"
    and "update_with_loaded_keys taf_repo role keys loaded start_date interval w1
           = (Inr x, repo1, w2)"
    and "update_metadata_expiration_date taf_repo role interval keystore start_date commit w
           = (res, taf_repo', w')"
  shows "(res = Inr () \<or> commit \<and> res = Inl Abort) \<and> (\<exists>evs. trace w' = trace w2 @ evs)"
proof (cases commit)
  case False
  with assms(3) show ?thesis
    unfolding update_metadata_expiration_date_unfold [OF assms(1,2)] by (auto simp: log_def)
next
  case True
  let ?w3 = "log (Print (Updated_expiration role)) w2"
  show ?thesis
  proof (cases "input_lines ?w3")
    case Nil
    with True assms(3) show ?thesis
      unfolding update_metadata_expiration_date_unfold [OF assms(1,2)]
      by (auto simp: input_line_def log_def)
  next
    case (Cons l ls)
    with True assms(3) show ?thesis
      unfolding update_metadata_expiration_date_unfold [OF assms(1,2)]
      by (auto simp: input_line_def log_def)
  qed
qed

lemma update_metadata_expiration_date_other_role:
  assumes l: "load_signing_keys' taf_repo role keystore None (Some []) w = (Inr (keys, loaded), w1)"
    and run: "update_metadata_expiration_date taf_repo role interval keystore start_date commit w
           = (res, taf_repo', w')"
    and other: "role \<notin> {''timestamp'', ''snapshot'', ''targets''}"
  shows "taf_repo' = taf_repo" "res = Inr () \<or> commit \<and> res = Inl Abort"
    "keys \<noteq> [] \<Longrightarrow> Print (Cannot_update_from_keystore role) \<in> set (events_since w1 w')"
proof -
  obtain r1 repo1 w2 where
    u: "update_with_loaded_keys taf_repo role keys loaded start_date interval w1 = (r1, repo1, w2)"
    by (cases "update_with_loaded_keys taf_repo role keys loaded start_date interval w1") auto
  from update_with_loaded_keys_other_role [OF other, of taf_repo keys loaded start_date interval w1]
  have r: "repo1 = taf_repo" "r1 = Inr ()" by (simp_all add: u)
  from u r(2) have u': "update_with_loaded_keys taf_repo role keys loaded start_date interval w1
      = (Inr (), repo1, w2)" by simp
  from update_metadata_expiration_date_outcome [OF l u run] r(1)
  show "taf_repo' = taf_repo" by simp
  note e = update_metadata_expiration_date_end [OF l u' run]
  from e show "res = Inr () \<or> commit \<and> res = Inl Abort" by (rule conjunct1)
  from e obtain evs where t: "trace w' = trace w2 @ evs" by (elim conjE exE)
  show "Print (Cannot_update_from_keystore role) \<in> set (events_since w1 w')" if k: "keys \<noteq> []"
  proof -
    from update_with_loaded_keys_other_role_report [OF other k, of taf_repo loaded start_date
        interval w1]
    have "w2 = log (Print (Cannot_update_from_keystore role)) w1" by (simp add: u)
    then have "trace w2 = trace w1 @ [Print (Cannot_update_from_keystore role)]"
      by (simp add: log_def)
    with t have "trace w' = trace w1 @ Print (Cannot_update_from_keystore role) # evs" by simp
    then show ?thesis by (simp add: events_since_def)
  qed
qed

text \<open>
  C1, as stated, fails: the table of update methods has no entry for root. With the
  root keys of the keystore loaded and a proposed expiration before the recorded one,
  the call reports that it cannot update root and returns normally; the expiration
  stays as it was.
\<close>

theorem root_refresh_does_not_fail_counterexample:
  "fst (update_metadata_expiration_date example_taf_repo ''root'' 0
          (Some example_keystore_path) 0 False example_world) = Inr ()
   \<and> 0 + timedelta_days 0 \<le> expiration example_taf_repo ''root''
   \<and> expiration (fst (snd (update_metadata_expiration_date example_taf_repo ''root'' 0
          (Some example_keystore_path) 0 False example_world))) ''root''
      = expiration example_taf_repo ''root''"
  by code_simp

text \<open>
  C1, amended. For the roles timestamp, snapshot and targets, when a key of the
  keystore was loaded (or, for targets, a token), a proposed expiration
  \<open>start_date + interval\<close> not later than the recorded one makes the call fail with
  \<open>MonotonicViolation\<close> and leaves the repository object as it was. A call that returns
  normally either leaves the repository object as it was or sets the expiration of the
  role to the proposed one, which then is strictly later than the old one. For any
  other role, once the signing keys of the role have loaded, the call leaves the
  repository object as it was and does not fail with
  \<open>MonotonicViolation\<close>: it returns normally, or, with \<open>commit\<close> set, ends with the
  abort of the prompt for the commit message; when a key of the keystore was loaded, it
  reports, after the loading of the keys, that it cannot update the role from the
  keystore.
\<close>

theorem expiration_refresh_monotone:
  assumes "load_signing_keys' taf_repo role keystore None (Some []) w = (Inr (keys, loaded), w1)"
    and "update_metadata_expiration_date taf_repo role interval keystore start_date commit w
           = (res, taf_repo', w')"
  shows "(role \<in> {''timestamp'', ''snapshot'', ''targets''}
          \<and> (keys \<noteq> [] \<or> role = ''targets'' \<and> first_targets_yubikey loaded \<noteq> None)
          \<and> start_date + timedelta_days interval \<le> expiration taf_repo role
          \<longrightarrow> res = Inl MonotonicViolation \<and> taf_repo' = taf_repo)
    \<and> (res = Inr () \<longrightarrow>
          taf_repo' = taf_repo
          \<or> expiration taf_repo role < expiration taf_repo' role
            \<and> expiration taf_repo' role = start_date + timedelta_days interval)
    \<and> (role \<notin> {''timestamp'', ''snapshot'', ''targets''}
          \<longrightarrow> taf_repo' = taf_repo \<and> res \<noteq> Inl MonotonicViolation
            \<and> (res = Inr () \<or> commit \<and> res = Inl Abort)
            \<and> (keys \<noteq> [] \<longrightarrow>
                 Print (Cannot_update_from_keystore role) \<in> set (events_since w1 w')))"
proof -
  obtain r1 repo1 w2 where
    u: "update_with_loaded_keys taf_repo role keys loaded start_date interval w1 = (r1, repo1, w2)"
    by (cases "update_with_loaded_keys taf_repo role keys loaded start_date interval w1") auto
  note fin = update_metadata_expiration_date_outcome [OF assms(1) u assms(2)]
  have p: "fst (update_with_loaded_keys taf_repo role keys loaded start_date interval w1) = r1"
    "fst (snd (update_with_loaded_keys taf_repo role keys loaded start_date interval w1)) = repo1"
    by (simp_all add: u)
  have c1: "r1 = Inl MonotonicViolation \<and> repo1 = taf_repo"
    if "role \<in> {''timestamp'', ''snapshot'', ''targets''}"
      and "keys \<noteq> [] \<or> role = ''targets'' \<and> first_targets_yubikey loaded \<noteq> None"
      and "start_date + timedelta_days interval \<le> expiration taf_repo role"
    using update_with_loaded_keys_refreshed [OF that(1,2), of taf_repo start_date interval w1]
      that(3) unfolding refreshed_def p by simp
  have c2: "repo1 = taf_repo
          \<or> expiration taf_repo role < expiration repo1 role
            \<and> expiration repo1 role = start_date + timedelta_days interval"
    if "r1 = Inr ()"
    using update_with_loaded_keys_any [of taf_repo role keys loaded start_date interval w1] that
    unfolding p by simp
  have g1: "role \<in> {''timestamp'', ''snapshot'', ''targets''}
          \<and> (keys \<noteq> [] \<or> role = ''targets'' \<and> first_targets_yubikey loaded \<noteq> None)
          \<and> start_date + timedelta_days interval \<le> expiration taf_repo role
          \<longrightarrow> res = Inl MonotonicViolation \<and> taf_repo' = taf_repo"
  proof (intro impI, elim conjE)
    assume a: "role \<in> {''timestamp'', ''snapshot'', ''targets''}"
      and b: "keys \<noteq> [] \<or> role = ''targets'' \<and> first_targets_yubikey loaded \<noteq> None"
      and c: "start_date + timedelta_days interval \<le> expiration taf_repo role"
    from c1 [OF a b c] have "r1 = Inl MonotonicViolation" "repo1 = taf_repo" by simp_all
    with fin show "res = Inl MonotonicViolation \<and> taf_repo' = taf_repo" by simp
  qed
  have g2: "res = Inr () \<longrightarrow>
          taf_repo' = taf_repo
          \<or> expiration taf_repo role < expiration taf_repo' role
            \<and> expiration taf_repo' role = start_date + timedelta_days interval"
  proof
    assume "res = Inr ()"
    with fin have "r1 = Inr ()" by simp
    from c2 [OF this] fin show "taf_repo' = taf_repo
          \<or> expiration taf_repo role < expiration taf_repo' role
            \<and> expiration taf_repo' role = start_date + timedelta_days interval" by simp
  qed
  have g3: "role \<notin> {''timestamp'', ''snapshot'', ''targets''}
          \<longrightarrow> taf_repo' = taf_repo \<and> res \<noteq> Inl MonotonicViolation
            \<and> (res = Inr () \<or> commit \<and> res = Inl Abort)
            \<and> (keys \<noteq> [] \<longrightarrow>
                 Print (Cannot_update_from_keystore role) \<in> set (events_since w1 w'))"
  proof
    assume other: "role \<notin> {''timestamp'', ''snapshot'', ''targets''}"
    note o = update_metadata_expiration_date_other_role [OF assms(1) assms(2) other]
    from o(2) have n: "res \<noteq> Inl MonotonicViolation" by auto
    from o(3) have k: "keys \<noteq> [] \<longrightarrow>
        Print (Cannot_update_from_keystore role) \<in> set (events_since w1 w')" by (rule impI)
    from o(1) n o(2) k
    show "taf_repo' = taf_repo \<and> res \<noteq> Inl MonotonicViolation
            \<and> (res = Inr () \<or> commit \<and> res = Inl Abort)
            \<and> (keys \<noteq> [] \<longrightarrow>
                 Print (Cannot_update_from_keystore role) \<in> set (events_since w1 w'))"
      by (intro conjI)
  qed
  from g1 g2 g3 show ?thesis by (intro conjI)
qed

text \<open>
  The snapshot role of the example with a proposed expiration of day 0, and the root role
  of the example, whose three keys are loaded from the keystore.
\<close>

theorem expiration_refresh_monotone_witness:
  "fst (load_signing_keys' example_taf_repo ''snapshot'' (Some example_keystore_path) None
          (Some []) example_world) = Inr ([''snapshot-key''], Some [])
   \<and> 0 + timedelta_days 0 \<le> expiration example_taf_repo ''snapshot''
   \<and> fst (update_metadata_expiration_date example_taf_repo ''snapshot'' 0
            (Some example_keystore_path) 0 False example_world) = Inl MonotonicViolation
   \<and> fst (snd (update_metadata_expiration_date example_taf_repo ''snapshot'' 0
            (Some example_keystore_path) 0 False example_world)) = example_taf_repo
   \<and> fst (load_signing_keys' example_taf_repo ''root'' (Some example_keystore_path) None
          (Some []) example_world) = Inr ([''root1-key'', ''root2-key'', ''root3-key''], Some [])
   \<and> fst (snd (update_metadata_expiration_date example_taf_repo ''root'' 0
            (Some example_keystore_path) 0 False example_world)) = example_taf_repo
   \<and> fst (update_metadata_expiration_date example_taf_repo ''root'' 0
            (Some example_keystore_path) 0 False example_world) = Inr ()
   \<and> Print (Cannot_update_from_keystore ''root'')
       \<in> set (events_since
            (snd (load_signing_keys' example_taf_repo ''root'' (Some example_keystore_path) None
               (Some []) example_world))
            (snd (snd (update_metadata_expiration_date example_taf_repo ''root'' 0
               (Some example_keystore_path) 0 False example_world))))"
proof -
  let ?l = "load_signing_keys' example_taf_repo ''snapshot'' (Some example_keystore_path) None
      (Some []) example_world"
  let ?u = "update_metadata_expiration_date example_taf_repo ''snapshot'' 0
      (Some example_keystore_path) 0 False example_world"
  have f: "fst ?l = Inr ([''snapshot-key''], Some [])" by code_simp
  then have run: "?l = (Inr ([''snapshot-key''], Some []), snd ?l)" by (cases ?l) simp
  have u: "?u = (fst ?u, fst (snd ?u), snd (snd ?u))" by simp
  have d: "0 + timedelta_days 0 \<le> expiration example_taf_repo ''snapshot''"
    by (simp add: example_taf_repo_def timedelta_days_def)
  have r: "''snapshot'' \<in> {''timestamp'', ''snapshot'', ''targets''}" by simp
  have k: "[''snapshot-key''] \<noteq> ([] :: key list)" by simp
  from expiration_refresh_monotone [OF run u, THEN conjunct1] r k d
  have s: "fst ?u = Inl MonotonicViolation \<and> fst (snd ?u) = example_taf_repo" by blast
  let ?lr = "load_signing_keys' example_taf_repo ''root'' (Some example_keystore_path) None
      (Some []) example_world"
  let ?ur = "update_metadata_expiration_date example_taf_repo ''root'' 0
      (Some example_keystore_path) 0 False example_world"
  have fr: "fst ?lr = Inr ([''root1-key'', ''root2-key'', ''root3-key''], Some [])" by code_simp
  then have runr: "?lr = (Inr ([''root1-key'', ''root2-key'', ''root3-key''], Some []), snd ?lr)"
    by (cases ?lr) simp
  have ur: "?ur = (fst ?ur, fst (snd ?ur), snd (snd ?ur))" by simp
  have rr: "''root'' \<notin> {''timestamp'', ''snapshot'', ''targets''}" by simp
  have kr: "[''root1-key'', ''root2-key'', ''root3-key''] \<noteq> ([] :: key list)" by simp
  note t = expiration_refresh_monotone [OF runr ur, THEN conjunct2, THEN conjunct2, rule_format,
      OF rr]
  from t have a: "fst (snd ?ur) = example_taf_repo" by (rule conjunct1)
  from t have b: "fst ?ur = Inr ()" by simp
  from t kr have c: "Print (Cannot_update_from_keystore ''root'')
       \<in> set (events_since (snd ?lr) (snd (snd ?ur)))" by simp
  from s have s1: "fst ?u = Inl MonotonicViolation" and s2: "fst (snd ?u) = example_taf_repo"
    by simp_all
  from f d s1 s2 fr a b c show ?thesis by (intro conjI)
qed

subsection \<open>Creating a repository\<close>

lemma runs_return: "runs P w (Inr x, w)"
  by (simp add: runs_def)

lemma runs_raise: "runs P w (Inl e, w)"
  by (simp add: runs_def)

lemma runs_log: "P ev \<Longrightarrow> \<not> is_declined ev \<Longrightarrow> runs P w (r, log ev w)"
  by (simp add: runs_def log_def)

lemma runs_trans:
  assumes "runs P w (Inr x, w1)" and "runs P w1 m"
  shows "runs P w m"
proof -
  from assms(1) obtain evs1 where
    1: "trace w1 = trace w @ evs1" "list_all P evs1" "\<not> list_ex is_declined evs1"
    by (auto simp: runs_def)
  from assms(2) obtain evs2 where
    2: "trace (snd m) = trace w1 @ evs2" "list_all P evs2"
       "list_ex is_declined evs2 \<longrightarrow> fst m = Inl KeystoreError"
    by (auto simp: runs_def)
  from 1 2 have "trace (snd m) = trace w @ (evs1 @ evs2) \<and> list_all P (evs1 @ evs2)
      \<and> (list_ex is_declined (evs1 @ evs2) \<longrightarrow> fst m = Inl KeystoreError)"
    by auto
  then show ?thesis unfolding runs_def by blast
qed

lemma runs_error: "runs P w (Inl e, w1) \<Longrightarrow> runs P w (Inl e, w1)"
  by (simp add: runs_def)

lemma runs_bind:
  assumes "runs P w m"
    and "\<And>x. fst m = Inr x \<Longrightarrow> runs P (snd m) (k x (snd m))"
  shows "runs P w (case m of (Inl e, w1) \<Rightarrow> (Inl e, w1) | (Inr x, w1) \<Rightarrow> k x w1)"
proof (cases m)
  case (Pair r w1)
  show ?thesis
  proof (cases r)
    case (Inl e)
    with Pair assms(1) show ?thesis by (simp add: runs_def)
  next
    case (Inr x)
    with Pair assms show ?thesis by (auto intro: runs_trans)
  qed
qed

lemma runs_weaken: "runs P w m \<Longrightarrow> (\<And>e. P e \<Longrightarrow> Q e) \<Longrightarrow> runs Q w m"
  unfolding runs_def by (auto simp: list_all_iff)

lemma runs_confirm:
  assumes "P (Confirm q True)" and "P (Confirm q False)" and "\<not> is_declined (Confirm q False)"
  shows "runs P w (confirm q w)"
proof (cases "confirm_answers w")
  case Nil
  then show ?thesis by (simp add: confirm_def runs_def)
next
  case (Cons a rest)
  have "\<not> is_declined (Confirm q True)" by (cases q) simp_all
  with Cons assms show ?thesis by (cases a) (simp_all add: confirm_def runs_def log_def)
qed

lemma runs_read_public: "P (Read_public_key n) \<Longrightarrow> runs P w (read_public_key_from_keystore n w)"
  by (simp add: read_public_key_from_keystore_def runs_log)

lemma runs_read_private: "P (Read_private_key n) \<Longrightarrow> runs P w (read_private_key_from_keystore n w)"
  by (simp add: read_private_key_from_keystore_def runs_log)

lemma runs_handler: "runs key_event w (keystore_error_handler key_name e w)"
proof (cases "confirm_answers w")
  case Nil
  then show ?thesis by (simp add: keystore_error_handler_def confirm_def runs_def)
next
  case (Cons a rest)
  then show ?thesis
    by (cases a) (simp_all add: keystore_error_handler_def confirm_def runs_def log_def)
qed

lemma runs_load_keystore_pair: "runs key_event w (load_keystore_pair keystore key_name w)"
proof (cases keystore)
  case None
  then show ?thesis by (simp add: load_keystore_pair_def runs_return)
next
  case (Some ks)
  let ?w1 = "log (Read_public_key key_name) w"
  let ?w2 = "log (Read_private_key key_name) ?w1"
  have 1: "runs key_event w (Inr (), ?w1)" by (simp add: runs_log)
  have 2: "runs key_event ?w1 (Inr (), ?w2)" by (simp add: runs_log)
  have 12: "runs key_event w (Inr (), ?w2)" using 1 2 by (rule runs_trans)
  have h1: "runs key_event w (keystore_error_handler key_name e ?w1)" for e
    using 1 runs_handler by (rule runs_trans)
  have h2: "runs key_event w (keystore_error_handler key_name e ?w2)" for e
    using 12 runs_handler by (rule runs_trans)
  have r: "runs key_event w (Inr x, ?w2)" for x :: "(key \<times> key) option"
    using 12 by (simp add: runs_def)
  show ?thesis
    using Some h1 h2 r
    by (simp add: load_keystore_pair_def read_public_key_from_keystore_def
        read_private_key_from_keystore_def split: sum.splits option.splits)
qed

lemma runs_generate_new_pair: "runs key_event w (generate_new_pair keystore key_name w)"
proof -
  have c: "runs key_event w
      (case keystore of None \<Rightarrow> (Inr False, w) | Some ks \<Rightarrow> confirm Write_keys_to_keystore w)"
    by (cases keystore) (simp_all add: runs_return runs_confirm)
  have k: "runs key_event w1
      (if write_keys
       then (let w2 = generate_and_write_rsa_keypair key_name w1 in
             case read_public_key_from_keystore key_name w2 of
               (Inl e, w3) \<Rightarrow> (Inl e, w3)
             | (Inr public_key, w3) \<Rightarrow>
                 (case read_private_key_from_keystore key_name w3 of
                    (Inl e, w4) \<Rightarrow> (Inl e, w4)
                  | (Inr private_key, w4) \<Rightarrow> (Inr (public_key, private_key), w4)))
       else (case generate_rsa_key w1 of (key, w2) \<Rightarrow> (Inr (key, key), w2)))"
    for write_keys w1
  proof (cases write_keys)
    case False
    then show ?thesis by (simp add: generate_rsa_key_def runs_def log_def)
  next
    case True
    let ?w2 = "generate_and_write_rsa_keypair key_name w1"
    have g: "runs key_event w1 (Inr (), ?w2)"
      by (simp add: generate_and_write_rsa_keypair_def Let_def runs_def log_def)
    have "runs key_event ?w2
       (case read_public_key_from_keystore key_name ?w2 of
               (Inl e, w3) \<Rightarrow> (Inl e, w3)
             | (Inr public_key, w3) \<Rightarrow>
                 (case read_private_key_from_keystore key_name w3 of
                    (Inl e, w4) \<Rightarrow> (Inl e, w4)
                  | (Inr private_key, w4) \<Rightarrow> (Inr (public_key, private_key), w4)))"
      by (intro runs_bind runs_read_public runs_read_private runs_return) simp_all
    with g True show ?thesis by (auto simp: Let_def intro: runs_trans)
  qed
  show ?thesis
    unfolding generate_new_pair_def
    by (rule runs_bind [OF c]) (rule k)
qed

lemma runs_register_key:
  "runs key_event w (register_key' keystore role_obj role_name key_name repository w)"
  unfolding register_key'_def
proof (rule runs_bind [OF runs_load_keystore_pair])
  fix x
  let ?w1 = "snd (load_keystore_pair keystore key_name w)"
  have p: "runs key_event ?w1
     (case x of None \<Rightarrow> generate_new_pair keystore key_name ?w1 | Some pair \<Rightarrow> (Inr pair, ?w1))"
    by (cases x) (simp_all add: runs_generate_new_pair runs_return)
  show "runs key_event ?w1
          (case case x of None \<Rightarrow> generate_new_pair keystore key_name ?w1
                | Some pair \<Rightarrow> (Inr pair, ?w1) of
           (Inl e, w2) \<Rightarrow> (Inl e, w2)
           | (Inr (public_key, private_key), w2) \<Rightarrow>
               (Inr (update_role role_obj
                       (\<lambda>obj. load_signing_key private_key (add_verification_key public_key obj))
                       repository), w2))"
    by (rule runs_bind [OF p]) (simp add: runs_return split: prod.splits)
qed

lemma runs_yubikey_prompt:
  "runs token_event w (yubikey_prompt key_name role loaded w)"
  by (cases "inserted_tokens w")
     (auto simp: yubikey_prompt_def runs_def log_def Let_def split: sum.splits)

lemma runs_setup_new_yubikey: "runs token_event w (setup_new_yubikey serial_num w)"
  by (simp add: setup_new_yubikey_def runs_log)

lemma runs_register_yubikey:
  "runs token_event w (register_yubikey' yubikeys role_obj role_name key_name repository w)"
proof (induction yubikeys role_obj role_name key_name repository w rule: register_yubikey'.induct)
  case (1 yubikeys role_obj role_name key_name repository w)
  let ?rest = "\<lambda>use_existing w2.
      (case yubikey_prompt key_name role_name (Some yubikeys) w2 of
         (Inl e, w3) \<Rightarrow> (Inl e, w3)
       | (Inr ((key, serial_num), yubikeys1), w3) \<Rightarrow>
           (case (if \<not> use_existing then setup_new_yubikey serial_num w3 else (Inr key, w3)) of
              (Inl e, w4) \<Rightarrow> (Inl e, w4)
            | (Inr key1, w4) \<Rightarrow>
                (Inr ((case yubikeys1 of None \<Rightarrow> yubikeys | Some y \<Rightarrow> y),
                      update_role role_obj
                        (\<lambda>obj. add_external_signature_provider key1 key_name
                                  (add_verification_key key1 obj))
                        repository),
                 log (Export_yk_certificate key1) w4)))"
  have rest: "runs token_event w2 (?rest use_existing w2)" for use_existing w2
  proof (rule runs_bind [OF runs_yubikey_prompt])
    fix x :: "(key \<times> string) \<times> loaded_yubikeys option"
    obtain key serial_num yubikeys1 where x: "x = ((key, serial_num), yubikeys1)"
      by (cases x) auto
    let ?w3 = "snd (yubikey_prompt key_name role_name (Some yubikeys) w2)"
    have s: "runs token_event ?w3
        (if \<not> use_existing then setup_new_yubikey serial_num ?w3 else (Inr key, ?w3))"
      by (simp add: runs_setup_new_yubikey runs_return)
    show "runs token_event ?w3
        (case x of
           ((key, serial_num), yubikeys1) \<Rightarrow>
             (\<lambda>w3. case (if \<not> use_existing then setup_new_yubikey serial_num w3
                          else (Inr key, w3)) of
                (Inl e, w4) \<Rightarrow> (Inl e, w4)
              | (Inr key1, w4) \<Rightarrow>
                  (Inr ((case yubikeys1 of None \<Rightarrow> yubikeys | Some y \<Rightarrow> y),
                        update_role role_obj
                          (\<lambda>obj. add_external_signature_provider key1 key_name
                                    (add_verification_key key1 obj))
                          repository),
                   log (Export_yk_certificate key1) w4)) ?w3)"
      unfolding x prod.case
      by (rule runs_bind [OF s]) (simp add: runs_log)
  qed
  show ?case
  proof (subst register_yubikey'.simps, rule runs_bind)
    show "runs token_event w (confirm Reuse_yubikey w)" by (simp add: runs_confirm)
  next
    fix use_existing
    assume a: "fst (confirm Reuse_yubikey w) = Inr use_existing"
    let ?w1 = "snd (confirm Reuse_yubikey w)"
    let ?m2 = "if \<not> use_existing then confirm Wipe_yubikey ?w1 else (Inr True, ?w1)"
    have m2: "runs token_event ?w1 ?m2" by (simp add: runs_confirm runs_return)
    show "runs token_event ?w1
        (case ?m2 of
           (Inl e, w2) \<Rightarrow> (Inl e, w2)
         | (Inr proceed, w2) \<Rightarrow>
             if \<not> proceed
             then register_yubikey' yubikeys role_obj role_name key_name repository w2
             else ?rest use_existing w2)"
    proof (rule runs_bind [OF m2])
      fix proceed
      assume b: "fst ?m2 = Inr proceed"
      show "runs token_event (snd ?m2)
          (if \<not> proceed
           then register_yubikey' yubikeys role_obj role_name key_name repository (snd ?m2)
           else ?rest use_existing (snd ?m2))"
      proof (cases proceed)
        case True
        then show ?thesis by (simp add: rest)
      next
        case False
        have e1: "(fst (confirm Reuse_yubikey w), ?w1) = confirm Reuse_yubikey w" by simp
        have e3: "(fst ?m2, snd ?m2) = ?m2" by (rule prod.collapse)
        have "runs token_event (snd ?m2)
            (register_yubikey' yubikeys role_obj role_name key_name repository (snd ?m2))"
          using e1 a e3 b False by (rule "1.IH")
        with False show ?thesis by simp
      qed
    qed
  qed
qed

lemma pass_event_simps: "pass_event True = token_event" "pass_event False = key_event"
  by (rule ext, simp add: pass_event_def)+

lemma runs_register_keys_loop:
  "runs (pass_event is_yubikey) w
     (register_keys_loop keystore is_yubikey role_obj role_name num_of_keys key_nums st w)"
proof (induction key_nums arbitrary: st w)
  case Nil
  then show ?case by (simp add: runs_return)
next
  case (Cons key_num rest)
  obtain yubikeys repository where st: "st = (yubikeys, repository)" by (cases st) auto
  let ?key_name = "get_key_name' role_name key_num num_of_keys"
  let ?m = "if is_yubikey
           then register_yubikey' yubikeys role_obj role_name ?key_name repository w
           else (case register_key' keystore role_obj role_name ?key_name repository w of
                   (Inl e, w1) \<Rightarrow> (Inl e, w1)
                 | (Inr repository1, w1) \<Rightarrow> (Inr (yubikeys, repository1), w1))"
  have m: "runs (pass_event is_yubikey) w ?m"
  proof (cases is_yubikey)
    case True
    then show ?thesis using runs_register_yubikey by (simp add: pass_event_simps)
  next
    case False
    have "runs key_event w
        (case register_key' keystore role_obj role_name ?key_name repository w of
                   (Inl e, w1) \<Rightarrow> (Inl e, w1)
                 | (Inr repository1, w1) \<Rightarrow> (Inr (yubikeys, repository1), w1))"
      by (rule runs_bind [OF runs_register_key]) (rule runs_return)
    with False show ?thesis by (simp add: pass_event_simps)
  qed
  show ?case
    unfolding st register_keys_loop.simps Let_def
    by (rule runs_bind [OF m]) (rule Cons.IH)
qed

lemma runs_register_roles_keys:
  "runs (pass_event (uses_yubikey info)) (log (Register_roles_keys role_name) w)
     (register_roles_keys' keystore role_name info st w)"
  unfolding register_roles_keys'_def Let_def
  by (cases "role_obj' role_name (snd st)") (simp_all add: runs_raise runs_register_keys_loop)

lemma registered_append: "registered (xs @ ys) = registered xs @ registered ys"
  by (induction xs rule: registered.induct) simp_all

lemma registered_pass_events: "list_all (pass_event yk) evs \<Longrightarrow> registered evs = []"
proof (induction evs)
  case Nil
  then show ?case by simp
next
  case (Cons ev evs)
  then have "pass_event yk ev" and ih: "registered evs = []" by simp_all
  then have "\<not> is_registration ev" by (cases ev) (auto simp: pass_event_def split: if_splits)
  with ih show ?case by (cases ev) simp_all
qed

lemma roles_of_pass_Cons:
  "roles_of_pass yk ((role_name, info) # rest) =
     (if uses_yubikey info = yk then role_name # roles_of_pass yk rest else roles_of_pass yk rest)"
  by (simp add: roles_of_pass_def)

lemma register_pass_runs:
  "pass_runs yk infos w (register_pass yk keystore infos st w)"
proof (induction infos arbitrary: st w)
  case Nil
  then show ?case by (simp add: pass_runs_def roles_of_pass_def)
next
  case (Cons a rest)
  obtain role_name info where a: "a = (role_name, info)" by (cases a) auto
  show ?case
  proof (cases "uses_yubikey info = yk")
    case False
    with Cons.IH [where st = st and w = w] show ?thesis
      by (simp add: a pass_runs_def roles_of_pass_Cons)
  next
    case True
    let ?m1 = "register_roles_keys' keystore role_name info st w"
    from runs_register_roles_keys [of info role_name w keystore st] True
    obtain evs1 where 1:
      "trace (snd ?m1) = trace w @ Register_roles_keys role_name # evs1"
      "list_all (pass_event yk) evs1"
      "list_ex is_declined evs1 \<longrightarrow> fst ?m1 = Inl KeystoreError"
      by (auto simp: runs_def log_def)
    have r1: "registered evs1 = []" using 1(2) by (rule registered_pass_events)
    have w1: "list_all (\<lambda>ev. pass_event yk ev \<or> is_registration ev) evs1"
      using 1(2) by (simp add: list_all_iff)
    show ?thesis
    proof (cases "fst ?m1")
      case (Inl e)
      then have m: "register_pass yk keystore (a # rest) st w = (Inl e, snd ?m1)"
        using True by (cases ?m1) (simp add: a)
      show ?thesis
        unfolding pass_runs_def m
        using 1 r1 w1 True Inl
        by (intro exI [of _ "Register_roles_keys role_name # evs1"])
           (simp add: a roles_of_pass_Cons)
    next
      case (Inr st1)
      then have m: "register_pass yk keystore (a # rest) st w
          = register_pass yk keystore rest st1 (snd ?m1)"
        using True by (cases ?m1) (simp add: a)
      from Cons.IH [where st = st1 and w = "snd ?m1"] obtain evs2 where 2:
        "trace (snd (register_pass yk keystore rest st1 (snd ?m1))) = trace (snd ?m1) @ evs2"
        "list_all (\<lambda>ev. pass_event yk ev \<or> is_registration ev) evs2"
        "list_ex is_declined evs2 \<longrightarrow>
           fst (register_pass yk keystore rest st1 (snd ?m1)) = Inl KeystoreError"
        "prefix (registered evs2) (roles_of_pass yk rest)"
        "(\<exists>x. fst (register_pass yk keystore rest st1 (snd ?m1)) = Inr x) \<longrightarrow>
           registered evs2 = roles_of_pass yk rest"
        unfolding pass_runs_def by blast
      have nd: "\<not> list_ex is_declined evs1" using 1(3) Inr by auto
      show ?thesis
        unfolding pass_runs_def m
        using 1 2 r1 w1 True nd
        by (intro exI [of _ "Register_roles_keys role_name # evs1 @ evs2"])
           (simp add: a roles_of_pass_Cons registered_append)
    qed
  qed
qed

lemma register_pass_canonical:
  "register_pass yk keystore infos st w = (Inr st', w') \<Longrightarrow>
     set (roles_of_pass yk infos) \<subseteq> canonical_roles"
proof (induction infos arbitrary: st w)
  case Nil
  then show ?case by (simp add: roles_of_pass_def)
next
  case (Cons a rest)
  obtain role_name info where a: "a = (role_name, info)" by (cases a) auto
  show ?case
  proof (cases "uses_yubikey info = yk")
    case False
    with Cons show ?thesis by (simp add: a roles_of_pass_Cons)
  next
    case True
    let ?m1 = "register_roles_keys' keystore role_name info st w"
    from True Cons.prems obtain st1 where
      1: "fst ?m1 = Inr st1" and
      2: "register_pass yk keystore rest st1 (snd ?m1) = (Inr st', w')"
      by (cases ?m1; cases "fst ?m1") (auto simp: a)
    have "role_obj' role_name (snd st) \<noteq> None"
      using 1 by (cases "role_obj' role_name (snd st)")
                 (simp_all add: register_roles_keys'_def Let_def)
    then have "role_name \<in> canonical_roles"
      by (auto simp: role_obj'_def canonical_roles_def split: if_splits)
    with Cons.IH [OF 2] True show ?thesis by (simp add: a roles_of_pass_Cons)
  qed
qed

lemma key_or_registration:
  "key_event ev \<or> is_registration ev \<Longrightarrow> \<not> token_event ev \<and> ev \<noteq> Writeall"
  by (cases ev rule: key_event.cases) auto

lemma token_or_registration:
  "token_event ev \<or> is_registration ev \<Longrightarrow> \<not> is_declined ev \<and> ev \<noteq> Writeall"
  by (cases ev rule: token_event.cases) auto

lemma finish_creation_events:
  "\<exists>evs. trace (snd (finish_creation commit test w)) = trace w @ evs
     \<and> registered evs = [] \<and> \<not> list_ex is_declined evs"
proof (cases "input_lines (log Git_init (log (Print Created_repository)
          (log Writeall (if test then log Touch_test_auth_repo w else w))))")
  case Nil
  then show ?thesis
    by (cases commit; cases test) (simp_all add: finish_creation_def Let_def input_line_def log_def)
next
  case (Cons l ls)
  then show ?thesis
    by (cases commit; cases test) (simp_all add: finish_creation_def Let_def input_line_def log_def)
qed

text \<open>
  The three ways a creation that is not stopped by an existing repository can go:
  the first pass fails, the second pass fails, or both return and the metadata is
  written.
\<close>

lemma create_repository_cases:
  assumes eff: "(if infos = [] then entered_roles_infos w else Inr infos) = Inr infos'"
    and new: "\<not> (is_dir fs repo_path \<and> git_repo_at fs repo_path \<noteq> None)"
    and run: "create_repository fs repo_path keystore infos commit test w = (res, w')"
  shows "\<exists>evs1 evs2 tail.
      trace w' = trace w @ Create_new_repository # evs1 @ evs2 @ tail
    \<and> list_all (\<lambda>ev. key_event ev \<or> is_registration ev) evs1
    \<and> list_all (\<lambda>ev. token_event ev \<or> is_registration ev) evs2
    \<and> prefix (registered evs1) (roles_of_pass False infos')
    \<and> prefix (registered evs2) (roles_of_pass True infos')
    \<and> (evs2 \<noteq> [] \<longrightarrow> registered evs1 = roles_of_pass False infos')
    \<and> registered tail = [] \<and> \<not> list_ex is_declined tail
    \<and> (list_ex is_declined evs1 \<longrightarrow>
          res = Inr () \<and> evs2 = [] \<and> tail = [Print Creation_failed])
    \<and> (Writeall \<in> set tail \<longrightarrow>
          set (roles_of_pass False infos') \<union> set (roles_of_pass True infos') \<subseteq> canonical_roles)"
proof -
  let ?w0 = "log Create_new_repository w"
  let ?m1 = "register_pass False keystore infos' ([], new_repository) ?w0"
  have unfold: "create_repository fs repo_path keystore infos commit test w =
      (case ?m1 of
         (Inl e, w1) \<Rightarrow>
           if e = KeystoreError then (Inr (), log (Print Creation_failed) w1) else (Inl e, w1)
       | (Inr st1, w1) \<Rightarrow>
           (case register_pass True keystore infos' st1 w1 of
              (Inl e, w2) \<Rightarrow>
                if e = KeystoreError then (Inr (), log (Print Creation_failed) w2)
                else (Inl e, w2)
            | (Inr st2, w2) \<Rightarrow> finish_creation commit test w2))"
    unfolding create_repository_def eff sum.case if_not_P [OF new] by (rule refl)
  from register_pass_runs [of False infos' ?w0 keystore "([], new_repository)"]
  obtain evs1 where 1:
    "trace (snd ?m1) = trace w @ Create_new_repository # evs1"
    "list_all (\<lambda>ev. key_event ev \<or> is_registration ev) evs1"
    "list_ex is_declined evs1 \<longrightarrow> fst ?m1 = Inl KeystoreError"
    "prefix (registered evs1) (roles_of_pass False infos')"
    "(\<exists>x. fst ?m1 = Inr x) \<longrightarrow> registered evs1 = roles_of_pass False infos'"
    unfolding pass_runs_def by (auto simp: log_def pass_event_simps)
  obtain r1 w1 where m1: "?m1 = (r1, w1)" by (cases ?m1) auto
  note 1 = 1 [unfolded m1 fst_conv snd_conv]
  show ?thesis
  proof (cases r1)
    case (Inl e)
    define tail where "tail = (if e = KeystoreError then [Print Creation_failed] else [])"
    have "(res, w') =
        (if e = KeystoreError then (Inr (), log (Print Creation_failed) w1) else (Inl e, w1))"
      using run unfolding unfold m1 Inl by simp
    then have r: "res = (if e = KeystoreError then Inr () else Inl e)"
      and w': "trace w' = trace w @ Create_new_repository # evs1 @ [] @ tail"
      by (simp_all add: 1(1) log_def tail_def split: if_splits)
    have d: "list_ex is_declined evs1 \<longrightarrow> res = Inr () \<and> tail = [Print Creation_failed]"
      using 1(3) Inl r by (auto simp: tail_def)
    have t: "registered tail = []" "\<not> list_ex is_declined tail" "Writeall \<notin> set tail"
      by (simp_all add: tail_def)
    show ?thesis
      using w' 1(2,4) d t
      by (intro exI [of _ evs1] exI [of _ "[]"] exI [of _ tail]) simp
  next
    case (Inr st1)
    let ?m2 = "register_pass True keystore infos' st1 w1"
    obtain r2 w2 where m2: "?m2 = (r2, w2)" by (cases ?m2) auto
    from register_pass_runs [of True infos' w1 keystore st1]
    obtain evs2 where 2:
      "trace w2 = trace w1 @ evs2"
      "list_all (\<lambda>ev. token_event ev \<or> is_registration ev) evs2"
      "prefix (registered evs2) (roles_of_pass True infos')"
      "(\<exists>x. r2 = Inr x) \<longrightarrow> registered evs2 = roles_of_pass True infos'"
      unfolding pass_runs_def m2 by (auto simp: pass_event_simps)
    have nd1: "\<not> list_ex is_declined evs1" using 1(3) Inr by auto
    have r1: "registered evs1 = roles_of_pass False infos'" using 1(5) Inr by auto
    have c1: "set (roles_of_pass False infos') \<subseteq> canonical_roles"
      using m1 [unfolded Inr] by (rule register_pass_canonical)
    show ?thesis
    proof (cases r2)
      case (Inl e)
      define tail where "tail = (if e = KeystoreError then [Print Creation_failed] else [])"
      have "(res, w') =
          (if e = KeystoreError then (Inr (), log (Print Creation_failed) w2) else (Inl e, w2))"
        using run unfolding unfold m1 \<open>r1 = Inr st1\<close> by (simp add: m2 Inl)
      then have w': "trace w' = trace w @ Create_new_repository # evs1 @ evs2 @ tail"
        by (simp add: 1(1) 2(1) log_def tail_def split: if_splits)
      have t: "registered tail = []" "\<not> list_ex is_declined tail" "Writeall \<notin> set tail"
        by (simp_all add: tail_def)
      show ?thesis
        using w' 1(2,4) 2(2,3) nd1 r1 t
        by (intro exI [of _ evs1] exI [of _ evs2] exI [of _ tail]) simp
    next
      case (Inr st2)
      from finish_creation_events [of commit test w2] obtain tail where 3:
        "trace (snd (finish_creation commit test w2)) = trace w2 @ tail"
        "registered tail = []" "\<not> list_ex is_declined tail" by blast
      have c2: "set (roles_of_pass True infos') \<subseteq> canonical_roles"
        using m2 [unfolded Inr] by (rule register_pass_canonical)
      have "(res, w') = finish_creation commit test w2"
        using run unfolding unfold m1 \<open>r1 = Inr st1\<close> by (simp add: m2 Inr)
      then have "w' = snd (finish_creation commit test w2)" by (metis snd_conv)
      then have w': "trace w' = trace w @ Create_new_repository # evs1 @ evs2 @ tail"
        using 3(1) 2(1) 1(1) by simp
      show ?thesis
        using w' 1(2,4) 2(2,3) nd1 r1 3(2,3) c1 c2
        by (intro exI [of _ evs1] exI [of _ evs2] exI [of _ tail]) simp
    qed
  qed
qed

text \<open>
  C2. In \<^verbatim>\<open>create_repository\<close> the roles whose registration is started are, in
  order, first roles that do not use YubiKeys and then roles that do, each group in the
  order of \<^verbatim>\<open>roles_key_infos\<close>: no role without YubiKeys is registered after one with
  YubiKeys. If a key of the keystore cannot be loaded and the user declines to generate
  new keys, the creation is abandoned: the call reports the failure and returns, no
  event of a token (question, prompt, set-up or certificate export) has happened, and no
  metadata is written.
\<close>

theorem two_pass_registration:
  assumes "(if infos = [] then entered_roles_infos w else Inr infos) = Inr infos'"
    and "create_repository fs repo_path keystore infos commit test w = (res, w')"
  shows "prefix (registered (events_since w w'))
           (roles_of_pass False infos' @ roles_of_pass True infos')
    \<and> (list_ex is_declined (events_since w w') \<longrightarrow>
          res = Inr ()
        \<and> \<not> list_ex token_event (events_since w w')
        \<and> Writeall \<notin> set (events_since w w')
        \<and> last (events_since w w') = Print Creation_failed)"
proof (cases "is_dir fs repo_path \<and> git_repo_at fs repo_path \<noteq> None")
  case True
  with assms have "w' = log (Print Already_exists) w"
    unfolding create_repository_def by auto
  then show ?thesis by (simp add: events_since_def log_def)
next
  case False
  from create_repository_cases [OF assms(1) False assms(2)]
  obtain evs1 evs2 tail where c:
    "trace w' = trace w @ Create_new_repository # evs1 @ evs2 @ tail"
    "list_all (\<lambda>ev. key_event ev \<or> is_registration ev) evs1"
    "list_all (\<lambda>ev. token_event ev \<or> is_registration ev) evs2"
    "prefix (registered evs1) (roles_of_pass False infos')"
    "prefix (registered evs2) (roles_of_pass True infos')"
    "evs2 \<noteq> [] \<longrightarrow> registered evs1 = roles_of_pass False infos'"
    "registered tail = []" "\<not> list_ex is_declined tail"
    "list_ex is_declined evs1 \<longrightarrow> res = Inr () \<and> evs2 = [] \<and> tail = [Print Creation_failed]"
    by blast
  have ev: "events_since w w' = Create_new_repository # evs1 @ evs2 @ tail"
    by (simp add: events_since_def c(1))
  have reg: "registered (events_since w w') = registered evs1 @ registered evs2"
    by (simp add: ev registered_append c(7))
  have order: "prefix (registered (events_since w w'))
           (roles_of_pass False infos' @ roles_of_pass True infos')"
  proof (cases "evs2 = []")
    case True
    with c(4) show ?thesis by (simp add: reg prefix_prefix)
  next
    case False
    with c(6) c(5) show ?thesis by (simp add: reg)
  qed
  have nd2: "\<not> list_ex is_declined evs2"
    using c(3) token_or_registration by (auto simp: list_all_iff list_ex_iff)
  have nt1: "\<not> list_ex token_event evs1" "Writeall \<notin> set evs1"
    using c(2) key_or_registration by (auto simp: list_all_iff list_ex_iff)
  have "res = Inr ()
        \<and> \<not> list_ex token_event (events_since w w')
        \<and> Writeall \<notin> set (events_since w w')
        \<and> last (events_since w w') = Print Creation_failed"
    if "list_ex is_declined (events_since w w')"
  proof -
    from that nd2 c(8) have "list_ex is_declined evs1" by (auto simp: ev list_ex_iff)
    with c(9) have "res = Inr ()" "evs2 = []" "tail = [Print Creation_failed]" by simp_all
    with nt1 show ?thesis by (simp add: ev)
  qed
  with order show ?thesis by blast
qed

text \<open>
  Root on YubiKeys is listed before targets, the keystore has no targets key and the
  user declines: targets is the only role whose registration is started.
\<close>

theorem two_pass_registration_witness:
  "(if example_roles = [] then entered_roles_infos example_world else Inr example_roles)
     = Inr example_roles
   \<and> events_since example_world
        (snd (create_repository example_fs [''r'', ''new''] (Some example_keystore_path)
                example_roles False False example_world))
      = [Create_new_repository, Register_roles_keys ''targets'', Read_public_key ''targets'',
         Confirm (Generate_new_keys ''targets'') False, Print Creation_failed]
   \<and> prefix [''targets''] (roles_of_pass False example_roles @ roles_of_pass True example_roles)
   \<and> fst (create_repository example_fs [''r'', ''new''] (Some example_keystore_path)
                example_roles False False example_world) = Inr ()"
proof -
  let ?run = "create_repository example_fs [''r'', ''new''] (Some example_keystore_path)
      example_roles False False example_world"
  have eff: "(if example_roles = [] then entered_roles_infos example_world
              else Inr example_roles) = Inr example_roles"
    by (simp add: example_roles_def)
  have ev: "events_since example_world (snd ?run)
      = [Create_new_repository, Register_roles_keys ''targets'', Read_public_key ''targets'',
         Confirm (Generate_new_keys ''targets'') False, Print Creation_failed]"
    by code_simp
  have run: "?run = (fst ?run, snd ?run)" by simp
  from two_pass_registration [OF eff run]
  have "prefix [''targets''] (roles_of_pass False example_roles @ roles_of_pass True example_roles)"
    and "fst ?run = Inr ()"
    unfolding ev by simp_all
  with eff ev show ?thesis by simp
qed

text \<open>
  C5, as stated, fails: on a path that hosts a git repository the call does not fail
  with \<open>AlreadyExists\<close> or with any other error; it returns normally.
\<close>

theorem existing_repository_returns_normally_counterexample:
  "is_dir example_fs example_auth
   \<and> git_repo_at example_fs example_auth = Some example_repo
   \<and> fst (create_repository example_fs example_auth (Some example_keystore_path)
            example_roles False False example_world) = Inr ()
   \<and> fst (create_repository example_fs example_auth (Some example_keystore_path)
            example_roles False False example_world) \<noteq> Inl AlreadyExists"
  by code_simp

text \<open>
  C5, amended. For a path that hosts a git repository, once the roles are known,
  \<^verbatim>\<open>create_repository\<close> prints that the repository already exists and returns
  normally; the message is its only event, so no repository is created, no key is
  registered and no metadata is written.
\<close>

theorem existing_repository_is_left_alone:
  assumes "is_dir fs repo_path" and "git_repo_at fs repo_path = Some g"
    and "(if infos = [] then entered_roles_infos w else Inr infos) = Inr infos'"
  shows "create_repository fs repo_path keystore infos commit test w
           = (Inr (), log (Print Already_exists) w)
    \<and> events_since w (snd (create_repository fs repo_path keystore infos commit test w))
         = [Print Already_exists]"
  using assms unfolding create_repository_def
  by (simp add: events_since_def log_def)

text \<open>The authentication repository of the example.\<close>

theorem existing_repository_is_left_alone_witness:
  "is_dir example_fs example_auth
   \<and> git_repo_at example_fs example_auth = Some example_repo
   \<and> (if example_roles = [] then entered_roles_infos example_world else Inr example_roles)
       = Inr example_roles
   \<and> create_repository example_fs example_auth (Some example_keystore_path) example_roles
        True True example_world = (Inr (), log (Print Already_exists) example_world)"
proof -
  have a: "is_dir example_fs example_auth" by (simp add: example_fs_def example_auth_def)
  have b: "git_repo_at example_fs example_auth = Some example_repo"
    by (simp add: example_fs_def example_auth_def)
  have c: "(if example_roles = [] then entered_roles_infos example_world
            else Inr example_roles) = Inr example_roles"
    by (simp add: example_roles_def)
  from existing_repository_is_left_alone [OF a b c] a b c show ?thesis by simp
qed

text \<open>
  C9. For a role name other than root, targets, snapshot and timestamp, \<^verbatim>\<open>_role_obj\<close>
  yields nothing and the registration of the role fails with \<^verbatim>\<open>AttributeError\<close>;
  a \<^verbatim>\<open>create_repository\<close> whose \<^verbatim>\<open>roles_key_infos\<close> contains such a role never
  writes the metadata.
\<close>

theorem only_top_level_roles_can_be_registered:
  assumes "role_name \<notin> canonical_roles"
  shows "role_obj' role_name repository = None
    \<and> fst (register_roles_keys' keystore role_name info st w) = Inl AttributeError
    \<and> ((role_name, info) \<in> set infos \<longrightarrow>
          Writeall \<notin> set (events_since w
            (snd (create_repository fs repo_path keystore infos commit test w))))"
proof -
  have none: "role_obj' role_name r = None" for r
    using assms by (simp add: role_obj'_def canonical_roles_def)
  have reg: "fst (register_roles_keys' keystore role_name info st w) = Inl AttributeError"
    by (simp add: register_roles_keys'_def Let_def none)
  have wr: "Writeall \<notin> set (events_since w
            (snd (create_repository fs repo_path keystore infos commit test w)))"
    if mem: "(role_name, info) \<in> set infos"
  proof (cases "is_dir fs repo_path \<and> git_repo_at fs repo_path \<noteq> None")
    case True
    from mem have "infos \<noteq> []" by auto
    with True show ?thesis
      unfolding create_repository_def by (auto simp: events_since_def log_def)
  next
    case False
    from mem have eff: "(if infos = [] then entered_roles_infos w else Inr infos) = Inr infos"
      by auto
    let ?m = "create_repository fs repo_path keystore infos commit test w"
    have run: "?m = (fst ?m, snd ?m)" by simp
    from create_repository_cases [OF eff False run]
    obtain evs1 evs2 tail where c:
      "trace (snd ?m) = trace w @ Create_new_repository # evs1 @ evs2 @ tail"
      "list_all (\<lambda>ev. key_event ev \<or> is_registration ev) evs1"
      "list_all (\<lambda>ev. token_event ev \<or> is_registration ev) evs2"
      "Writeall \<in> set tail \<longrightarrow>
          set (roles_of_pass False infos) \<union> set (roles_of_pass True infos) \<subseteq> canonical_roles"
      by blast
    have "role_name \<in> set (roles_of_pass False infos) \<union> set (roles_of_pass True infos)"
      using mem by (cases "uses_yubikey info") (force simp: roles_of_pass_def)+
    with assms c(4) have t: "Writeall \<notin> set tail" by auto
    have 1: "Writeall \<notin> set evs1"
      using c(2) key_or_registration by (auto simp: list_all_iff)
    have 2: "Writeall \<notin> set evs2"
      using c(3) token_or_registration by (auto simp: list_all_iff)
    show ?thesis using t 1 2 by (simp add: events_since_def c(1))
  qed
  from none reg wr show ?thesis by blast
qed

text \<open>A delegated role after snapshot and timestamp, whose keys are in the keystore.\<close>

theorem only_top_level_roles_can_be_registered_witness:
  "''delegated'' \<notin> canonical_roles
   \<and> role_obj' ''delegated'' new_repository = None
   \<and> (''delegated'', default_info) \<in> set example_roles_delegated
   \<and> Writeall \<notin> set (events_since example_world
        (snd (create_repository example_fs [''r'', ''new''] (Some example_keystore_path)
                example_roles_delegated False False example_world)))
   \<and> raised (fst (create_repository example_fs [''r'', ''new''] (Some example_keystore_path)
                example_roles_delegated False False example_world)) = Some AttributeError"
proof -
  have a: "''delegated'' \<notin> canonical_roles" by (simp add: canonical_roles_def)
  have b: "(''delegated'', default_info) \<in> set example_roles_delegated"
    by (simp add: example_roles_delegated_def)
  have c: "raised (fst (create_repository example_fs [''r'', ''new''] (Some example_keystore_path)
                example_roles_delegated False False example_world)) = Some AttributeError"
    by code_simp
  from only_top_level_roles_can_be_registered [OF a, where repository = new_repository
      and info = default_info and infos = example_roles_delegated and w = example_world
      and fs = example_fs and repo_path = "[''r'', ''new'']"
      and keystore = "Some example_keystore_path" and commit = False and test = False
      and st = "([], new_repository)"] a b c
  show ?thesis by simp
qed

subsection \<open>Registering the target files\<close>

lemma sort_key_fst_unique:
  assumes "distinct (map fst xs)" and "distinct (map fst ys)" and "map_of xs = map_of ys"
  shows "sort_key fst xs = sort_key fst ys"
proof -
  have s: "set xs = set ys" using assms by (simp add: map_of_inject_set)
  have "distinct xs" "distinct ys" using assms(1,2) by (auto simp: distinct_map)
  with s have m: "mset xs = mset (sort_key fst ys)"
    by (simp add: set_eq_iff_mset_eq_distinct)
  have i: "inj_on fst (set xs)" using assms(1) by (simp add: distinct_map)
  show ?thesis using m i by (rule sort_key_inj_key_eq) simp
qed

lemma distinct_dict_set: "distinct (map fst d) \<Longrightarrow> distinct (map fst (dict_set k v d))"
  by (simp add: dict_set_def distinct_update)

lemma map_of_dict_set: "map_of (dict_set k v d) = (map_of d)(k \<mapsto> v)"
  by (simp add: dict_set_def update_conv')

lemma add_existing_targets_result:
  assumes "add_existing_targets H fs tp ps repo = Inr repo'"
    and "inj_on (target_name tp) (set ps)"
  shows "(distinct (map fst (targets_dict repo)) \<longrightarrow> distinct (map fst (targets_dict repo')))
    \<and> (\<forall>n. n \<notin> target_name tp ` set ps \<longrightarrow>
          map_of (targets_dict repo') n = map_of (targets_dict repo) n)
    \<and> (\<forall>p \<in> set ps. \<exists>content. files fs p = Some content
          \<and> map_of (targets_dict repo') (target_name tp p) = Some (length content, H content))
    \<and> calls repo' = calls repo \<and> role_threshold repo' = role_threshold repo
    \<and> role_keys repo' = role_keys repo"
  using assms
proof (induction ps arbitrary: repo)
  case Nil
  then show ?case by simp
next
  case (Cons p ps)
  from Cons.prems(1) obtain content where c: "files fs p = Some content"
    by (auto simp: add_existing_target_def split: option.splits)
  let ?repo1 = "repo\<lparr>targets_dict :=
      dict_set (target_name tp p) (length content, H content) (targets_dict repo)\<rparr>"
  have rest: "add_existing_targets H fs tp ps ?repo1 = Inr repo'"
    using Cons.prems(1) c by (simp add: add_existing_target_def)
  have inj: "inj_on (target_name tp) (set ps)" using Cons.prems(2) by (simp add: inj_on_def)
  note ih = Cons.IH [OF rest inj]
  have head: "map_of (targets_dict repo') (target_name tp p) = Some (length content, H content)"
  proof (cases "p \<in> set ps")
    case True
    with ih c show ?thesis by auto
  next
    case False
    then have "target_name tp p \<notin> target_name tp ` set ps"
      using Cons.prems(2) by (auto simp: inj_on_def)
    with ih show ?thesis by (simp add: map_of_dict_set)
  qed
  show ?case
    using ih head c by (auto simp: distinct_dict_set map_of_dict_set)
qed

lemma write_targets_metadata_targets:
  "write_targets_metadata' taf_repo keystore infos w = (Inr taf_repo', w') \<Longrightarrow>
     targets_dict taf_repo' = targets_dict taf_repo"
  unfolding write_targets_metadata'_def Let_def
  by (auto simp: call_def split: prod.splits sum.splits if_splits option.splits)

lemma register_target_files_result:
  assumes "register_target_files H fs repo_path taf_repo keystore infos commit w = (Inr repo', w')"
  shows "\<exists>repo1. add_existing_targets H fs (path_div repo_path TARGETS_DIRECTORY_NAME)
            (walked_files fs (path_div repo_path TARGETS_DIRECTORY_NAME)) taf_repo = Inr repo1
          \<and> targets_dict repo' = targets_dict repo1"
proof -
  let ?tp = "path_div repo_path TARGETS_DIRECTORY_NAME"
  from assms obtain repo1 where
    1: "add_existing_targets H fs ?tp (walked_files fs ?tp) taf_repo = Inr repo1"
    by (cases "add_existing_targets H fs ?tp (walked_files fs ?tp) taf_repo")
       (auto simp: register_target_files_def Let_def)
  obtain r w1 where 2: "write_targets_metadata' repo1 keystore infos w = (r, w1)"
    by (cases "write_targets_metadata' repo1 keystore infos w") auto
  from assms 1 2 obtain repo2 where 3: "r = Inr repo2" and 4: "repo' = repo2"
    by (cases r; cases commit; cases "input_line w1"; cases "fst (input_line w1)")
       (auto simp: register_target_files_def Let_def)
  from write_targets_metadata_targets [OF 2 [unfolded 3]] 4 1 show ?thesis by simp
qed

text \<open>
  C3. Two runs of \<^verbatim>\<open>register_target_files\<close> over the same files with the same
  contents, walked in any two orders, emit the same \<^verbatim>\<open>targets.json\<close>, whether the
  second run starts from the entries the first one recorded or from the same entries as
  the first: the entries are emitted sorted by their path.
\<close>

theorem register_target_files_deterministic:
  assumes "register_target_files H fs1 repo_path repoA keystore1 infos1 commit1 w1
             = (Inr repo1, w1')"
    and "register_target_files H fs2 repo_path repoB keystore2 infos2 commit2 w2
             = (Inr repo2, w2')"
    and "set (walked_files fs2 (path_div repo_path TARGETS_DIRECTORY_NAME))
           = set (walked_files fs1 (path_div repo_path TARGETS_DIRECTORY_NAME))"
    and "\<forall>p \<in> set (walked_files fs1 (path_div repo_path TARGETS_DIRECTORY_NAME)).
           files fs2 p = files fs1 p"
    and "inj_on (target_name (path_div repo_path TARGETS_DIRECTORY_NAME))
           (set (walked_files fs1 (path_div repo_path TARGETS_DIRECTORY_NAME)))"
    and "distinct (map fst (targets_dict repoA))"
    and "distinct (map fst (targets_dict repoB))"
    and "map_of (targets_dict repoB) = map_of (targets_dict repo1)
         \<or> map_of (targets_dict repoB) = map_of (targets_dict repoA)"
  shows "targets_json_text repo2 = targets_json_text repo1
    \<and> emitted_entries repo2 = emitted_entries repo1
    \<and> sorted (map fst (emitted_entries repo1))"
proof -
  let ?tp = "path_div repo_path TARGETS_DIRECTORY_NAME"
  let ?ps1 = "walked_files fs1 ?tp" and ?ps2 = "walked_files fs2 ?tp"
  from register_target_files_result [OF assms(1)] obtain r1 where
    a1: "add_existing_targets H fs1 ?tp ?ps1 repoA = Inr r1"
    and t1: "targets_dict repo1 = targets_dict r1" by blast
  from register_target_files_result [OF assms(2)] obtain r2 where
    a2: "add_existing_targets H fs2 ?tp ?ps2 repoB = Inr r2"
    and t2: "targets_dict repo2 = targets_dict r2" by blast
  have inj2: "inj_on (target_name ?tp) (set ?ps2)" using assms(3,5) by simp
  note f1 = add_existing_targets_result [OF a1 assms(5)]
  note f2 = add_existing_targets_result [OF a2 inj2]
  have d1: "distinct (map fst (targets_dict repo1))" using f1 assms(6) t1 by simp
  have d2: "distinct (map fst (targets_dict repo2))" using f2 assms(7) t2 by simp
  have "map_of (targets_dict repo2) n = map_of (targets_dict repo1) n" for n
  proof (cases "n \<in> target_name ?tp ` set ?ps1")
    case True
    then obtain p where p: "p \<in> set ?ps1" "n = target_name ?tp p" by auto
    from f1 p obtain c1 where c1: "files fs1 p = Some c1"
      "map_of (targets_dict r1) n = Some (length c1, H c1)" by blast
    from p assms(3) have "p \<in> set ?ps2" by simp
    with f2 p obtain c2 where c2: "files fs2 p = Some c2"
      "map_of (targets_dict r2) n = Some (length c2, H c2)" by blast
    from assms(4) p c1 c2 have "c2 = c1" by auto
    with c1 c2 t1 t2 show ?thesis by simp
  next
    case False
    then have n1: "map_of (targets_dict r1) n = map_of (targets_dict repoA) n"
      using f1 by blast
    from False assms(3) have "n \<notin> target_name ?tp ` set ?ps2" by simp
    then have n2: "map_of (targets_dict r2) n = map_of (targets_dict repoB) n"
      using f2 by blast
    from assms(8) show ?thesis
    proof
      assume "map_of (targets_dict repoB) = map_of (targets_dict repo1)"
      with n2 t2 show ?thesis by simp
    next
      assume "map_of (targets_dict repoB) = map_of (targets_dict repoA)"
      with n1 n2 t1 t2 show ?thesis by simp
    qed
  qed
  then have "map_of (targets_dict repo2) = map_of (targets_dict repo1)" by (rule ext)
  with d1 d2 have e: "emitted_entries repo2 = emitted_entries repo1"
    unfolding emitted_entries_def by (intro sort_key_fst_unique)
  have s: "sorted (map fst (emitted_entries repo1))"
    unfolding emitted_entries_def by simp
  from e s show ?thesis by (simp add: targets_json_text_def)
qed

text \<open>
  The three target files of the example walked in two different orders; the digest
  of a file is its reversed text.
\<close>

theorem register_target_files_deterministic_witness:
  "fst example_first_run = Inr (registered_repo example_first_run)
   \<and> fst example_second_run = Inr (registered_repo example_second_run)
   \<and> set (walked_files example_fs_reordered (path_div example_auth TARGETS_DIRECTORY_NAME))
       = set (walked_files example_fs (path_div example_auth TARGETS_DIRECTORY_NAME))
   \<and> walked_files example_fs_reordered (path_div example_auth TARGETS_DIRECTORY_NAME)
       \<noteq> walked_files example_fs (path_div example_auth TARGETS_DIRECTORY_NAME)
   \<and> emitted_entries (registered_repo example_first_run)
       = [(''a'', 3, ''eno''), (''z/a'', 3, ''owt''), (''z/b'', 5, ''eerht'')]
   \<and> targets_json_text (registered_repo example_second_run)
       = targets_json_text (registered_repo example_first_run)"
proof -
  let ?tp = "path_div example_auth TARGETS_DIRECTORY_NAME"
  have tp: "?tp = [''r'', ''ns'', ''auth'', ''targets'']"
    by (simp add: path_div_def components_def example_auth_def TARGETS_DIRECTORY_NAME_def)
  have w1: "walked_files example_fs ?tp =
      [[''r'', ''ns'', ''auth'', ''targets'', ''a''],
       [''r'', ''ns'', ''auth'', ''targets'', ''z'', ''b''],
       [''r'', ''ns'', ''auth'', ''targets'', ''z'', ''a'']]"
    unfolding tp by (simp add: walked_files_def example_fs_def)
  have w2: "walked_files example_fs_reordered ?tp =
      [[''r'', ''ns'', ''auth'', ''targets'', ''z'', ''a''],
       [''r'', ''ns'', ''auth'', ''targets'', ''z'', ''b''],
       [''r'', ''ns'', ''auth'', ''targets'', ''a'']]"
    unfolding tp by (simp add: walked_files_def example_fs_reordered_def example_fs_def)
  have ok1: "raised (fst example_first_run) = None" by code_simp
  have ok2: "raised (fst example_second_run) = None" by code_simp
  have f1: "fst example_first_run = Inr (registered_repo example_first_run)"
    using ok1 by (cases "fst example_first_run") (simp_all add: raised_def registered_repo_def)
  have r1: "example_first_run = (Inr (registered_repo example_first_run), snd example_first_run)"
    by (rule prod_eqI) (simp_all add: f1)
  have f2: "fst example_second_run = Inr (registered_repo example_second_run)"
    using ok2 by (cases "fst example_second_run") (simp_all add: raised_def registered_repo_def)
  have r2: "example_second_run
      = (Inr (registered_repo example_second_run), snd example_second_run)"
    by (rule prod_eqI) (simp_all add: f2)
  have s: "set (walked_files example_fs_reordered ?tp) = set (walked_files example_fs ?tp)"
    unfolding w1 w2 by auto
  have ne: "walked_files example_fs_reordered ?tp \<noteq> walked_files example_fs ?tp"
    unfolding w1 w2 by simp
  have c: "\<forall>p \<in> set (walked_files example_fs ?tp). files example_fs_reordered p = files example_fs p"
    by (simp add: example_fs_reordered_def)
  have i: "inj_on (target_name ?tp) (set (walked_files example_fs ?tp))"
    unfolding w1 unfolding tp by (simp add: target_name_def)
  have dA: "distinct (map fst (targets_dict example_taf_repo2))"
    by (simp add: example_taf_repo2_def)
  have e: "emitted_entries (registered_repo example_first_run)
       = [(''a'', 3, ''eno''), (''z/a'', 3, ''owt''), (''z/b'', 5, ''eerht'')]"
    by code_simp
  have dB: "distinct (map fst (targets_dict (registered_repo example_first_run)))"
    by code_simp
  from register_target_files_deterministic
    [OF r1 [unfolded example_first_run_def] r2 [unfolded example_second_run_def] s c i dA dB]
  have "targets_json_text (registered_repo example_second_run)
       = targets_json_text (registered_repo example_first_run)"
    by (simp add: example_first_run_def example_second_run_def)
  with f1 f2 s ne e show ?thesis by simp
qed

end
